theory Spec2Isabelle
  imports Complex_Main "HOL-Library.Product_Lexorder" "HOL-Library.Multiset"
begin

section \<open>Values, exceptions and the outside world\<close>

text \<open>
  The program is \<^verbatim>\<open>src/app.py\<close>. Its helpers work on what \<^verbatim>\<open>r.json()\<close> returns: Python
  values built from \<^verbatim>\<open>None\<close>, booleans, numbers, strings, lists and dictionaries. A
  dictionary is an association list read with \<open>map_of\<close>. A number of the body is an
  integer or a finite float and is kept with its exact value; the literals that Python
  reads as an infinity or as NaN are outside the model.
\<close>

datatype json =
    JNull
  | JBool bool
  | JNum real
  | JStr string
  | JArr "json list"
  | JObj "(string \<times> json) list"

datatype exn =
    RequestException
  | AttributeError
  | TypeError
  | ValueError
  | KeyError
  | IndexError
  | OverflowError

text \<open>Python truthiness, as used by \<^verbatim>\<open>if x\<close>, \<^verbatim>\<open>not x\<close>, \<^verbatim>\<open>bool(x)\<close> and \<^verbatim>\<open>x or y\<close>.\<close>

fun truthy :: "json \<Rightarrow> bool" where
  "truthy JNull = False"
| "truthy (JBool b) = b"
| "truthy (JNum x) = (x \<noteq> 0)"
| "truthy (JStr s) = (s \<noteq> [])"
| "truthy (JArr xs) = (xs \<noteq> [])"
| "truthy (JObj kvs) = (kvs \<noteq> [])"

definition py_or :: "json \<Rightarrow> json \<Rightarrow> json" where
  "py_or a b = (if truthy a then a else b)"

text \<open>\<^verbatim>\<open>x.get(key, default)\<close>: only a dictionary has the method.\<close>

fun py_get :: "json \<Rightarrow> string \<Rightarrow> json \<Rightarrow> exn + json" where
  "py_get (JObj kvs) k d = Inr (case map_of kvs k of None \<Rightarrow> d | Some v \<Rightarrow> v)"
| "py_get _ k d = Inl AttributeError"

text \<open>\<^verbatim>\<open>for it in x\<close>: a list yields its elements, a string its characters, a dictionary
  its keys; nothing else is iterable.\<close>

fun py_iter :: "json \<Rightarrow> exn + json list" where
  "py_iter (JArr xs) = Inr xs"
| "py_iter (JStr s) = Inr (map (\<lambda>c. JStr [c]) s)"
| "py_iter (JObj kvs) = Inr (map (\<lambda>kv. JStr (fst kv)) kvs)"
| "py_iter _ = Inl TypeError"

text \<open>The operand of an arithmetic operation: a number, or a boolean read as 0 or 1.\<close>

fun as_number :: "json \<Rightarrow> real option" where
  "as_number (JNum x) = Some x"
| "as_number (JBool b) = Some (of_bool b)"
| "as_number _ = None"

section \<open>Floating-point arithmetic\<close>

text \<open>
  A Python float is a finite double, kept as the real number it denotes, or an infinity.
  NaN is not a value of the model: the arithmetic of this program produces it only from
  two infinite operands, which it never has when the numbers of the provider are finite.
  Floats are compared exactly, as the hardware compares them.
\<close>

datatype pyfloat = Finite real | Infinite | NegInfinite

instantiation pyfloat :: linorder
begin

fun less_eq_pyfloat :: "pyfloat \<Rightarrow> pyfloat \<Rightarrow> bool" where
  "less_eq_pyfloat NegInfinite b = True"
| "less_eq_pyfloat (Finite x) NegInfinite = False"
| "less_eq_pyfloat (Finite x) (Finite y) = (x \<le> y)"
| "less_eq_pyfloat (Finite x) Infinite = True"
| "less_eq_pyfloat Infinite Infinite = True"
| "less_eq_pyfloat Infinite b = False"

definition less_pyfloat :: "pyfloat \<Rightarrow> pyfloat \<Rightarrow> bool" where
  "less_pyfloat a b = (a \<le> b \<and> \<not> b \<le> (a::pyfloat))"

instance
proof
  fix x y z :: pyfloat
  show "(x < y) = (x \<le> y \<and> \<not> y \<le> x)"
    by (simp add: less_pyfloat_def)
  show "x \<le> x"
    by (cases x) simp_all
  show "x \<le> y \<Longrightarrow> y \<le> z \<Longrightarrow> x \<le> z"
    by (cases x; cases y; cases z) simp_all
  show "x \<le> y \<Longrightarrow> y \<le> x \<Longrightarrow> x = y"
    by (cases x; cases y) simp_all
  show "x \<le> y \<or> y \<le> x"
    by (cases x; cases y) auto
qed

end

text \<open>
  What an operation on floats returns depends on the rounding of the hardware and on the
  C library, neither of which is code of the program. The program is therefore modelled
  over an arithmetic that is a parameter: one function for each operation the source
  uses. \<open>to_float\<close> is the conversion of a number to a float, applied by \<^verbatim>\<open>float(x)\<close> and to
  an integer operand of a float operation; its result is finite, and it raises
  \<^verbatim>\<open>OverflowError\<close> on an integer out of range. The functions of \<^verbatim>\<open>math\<close> and \<^verbatim>\<open>**\<close> may raise; \<^verbatim>\<open>+\<close>, \<^verbatim>\<open>-\<close>, \<^verbatim>\<open>*\<close>, division by
  a non-zero constant and \<^verbatim>\<open>math.radians\<close> do not.
\<close>

record fpu =
  to_float :: "real \<Rightarrow> exn + real"
  f_add :: "pyfloat \<Rightarrow> pyfloat \<Rightarrow> pyfloat"
  f_sub :: "pyfloat \<Rightarrow> pyfloat \<Rightarrow> pyfloat"
  f_mul :: "pyfloat \<Rightarrow> pyfloat \<Rightarrow> pyfloat"
  f_div :: "pyfloat \<Rightarrow> pyfloat \<Rightarrow> pyfloat"
  f_pow :: "pyfloat \<Rightarrow> nat \<Rightarrow> exn + pyfloat"
  f_radians :: "pyfloat \<Rightarrow> pyfloat"
  f_sin :: "pyfloat \<Rightarrow> exn + pyfloat"
  f_cos :: "pyfloat \<Rightarrow> exn + pyfloat"
  f_sqrt :: "pyfloat \<Rightarrow> exn + pyfloat"
  f_asin :: "pyfloat \<Rightarrow> exn + pyfloat"

text \<open>
  The network. A request is what \<^verbatim>\<open>requests.get\<close> is given; a response is either the
  exception raised by \<^verbatim>\<open>requests.get\<close>, \<^verbatim>\<open>raise_for_status\<close> or \<^verbatim>\<open>r.json()\<close> (timeout,
  non-2xx status, malformed body), or the decoded body. The world answers the \<open>n\<close>-th
  network call of a run (counted from 0) as a function of the request, so every sequence
  of answers is a world. The world also holds the rest of the runtime that is not code of
  the program: the parser of \<^verbatim>\<open>float(s)\<close> for a string, the arithmetic, and the longest
  sleep \<^verbatim>\<open>time.sleep\<close> accepts. Every run returns, with its result, the list of the effects
  it performed, in order.
\<close>

datatype request =
    Search string
  | CloseTo string nat pyfloat pyfloat
  | BBox string nat pyfloat pyfloat pyfloat pyfloat

datatype response = Failed exn | Body json

datatype event = Get request | Sleep real

record world =
  http :: "nat \<Rightarrow> request \<Rightarrow> response"
  str_to_float :: "string \<Rightarrow> pyfloat option"
  arith :: fpu
  sleep_max :: real

section \<open>The geocoder\<close>

record geo =
  lat :: pyfloat
  lon :: pyfloat
  label :: json

text \<open>\<^verbatim>\<open>float(x)\<close>: a number is converted, a boolean is 0.0 or 1.0, a string is parsed,
  anything else is a \<^verbatim>\<open>TypeError\<close>.\<close>

fun py_float :: "world \<Rightarrow> json \<Rightarrow> exn + pyfloat" where
  "py_float w (JNum x) =
     (case to_float (arith w) x of Inl e \<Rightarrow> Inl e | Inr y \<Rightarrow> Inr (Finite y))"
| "py_float w (JBool b) = Inr (Finite (of_bool b))"
| "py_float w (JStr s) = (case str_to_float w s of None \<Rightarrow> Inl ValueError | Some x \<Rightarrow> Inr x)"
| "py_float w _ = Inl TypeError"

text \<open>\<^verbatim>\<open>data[0]\<close> for a truthy \<open>data\<close>.\<close>

fun py_first :: "json \<Rightarrow> exn + json" where
  "py_first (JArr (x # xs)) = Inr x"
| "py_first (JArr []) = Inl IndexError"
| "py_first (JStr (c # cs)) = Inr (JStr [c])"
| "py_first (JStr []) = Inl IndexError"
| "py_first (JObj kvs) = Inl KeyError"
| "py_first _ = Inl TypeError"

text \<open>\<^verbatim>\<open>x[key]\<close> with a string key.\<close>

fun py_item :: "json \<Rightarrow> string \<Rightarrow> exn + json" where
  "py_item (JObj kvs) k = (case map_of kvs k of None \<Rightarrow> Inl KeyError | Some v \<Rightarrow> Inr v)"
| "py_item _ k = Inl TypeError"

text \<open>
  The body of the \<^verbatim>\<open>try\<close> block of \<open>geocode_nominatim\<close> (lines 31 to 38), given the answer
  to its request: \<open>Inl\<close> is an exception raised inside the block, \<open>Inr\<close> the value it
  returns.
\<close>

definition geocode_try :: "world \<Rightarrow> string \<Rightarrow> response \<Rightarrow> exn + geo option" where
  "geocode_try w address resp =
     (case resp of
        Failed e \<Rightarrow> Inl e
      | Body data \<Rightarrow>
          if truthy data then
            (case py_first data of
               Inl e \<Rightarrow> Inl e
             | Inr d0 \<Rightarrow>
                 (case py_item d0 ''lat'' of
                    Inl e \<Rightarrow> Inl e
                  | Inr la \<Rightarrow>
                      (case py_float w la of
                         Inl e \<Rightarrow> Inl e
                       | Inr lat' \<Rightarrow>
                           (case py_item d0 ''lon'' of
                              Inl e \<Rightarrow> Inl e
                            | Inr lo \<Rightarrow>
                                (case py_float w lo of
                                   Inl e \<Rightarrow> Inl e
                                 | Inr lon' \<Rightarrow>
                                     (case py_get d0 ''display_name'' (JStr address) of
                                        Inl e \<Rightarrow> Inl e
                                      | Inr lab \<Rightarrow>
                                          Inr (Some \<lparr>lat = lat', lon = lon', label = lab\<rparr>)))))))
          else Inr None)"

text \<open>\<^verbatim>\<open>time.sleep(delay)\<close> converts the length, which fails with \<^verbatim>\<open>OverflowError\<close> beyond
  the longest sleep of the platform, and then rejects a negative length.\<close>

definition py_sleep :: "world \<Rightarrow> real \<Rightarrow> exn + unit" where
  "py_sleep w delay =
     (if delay < - sleep_max w \<or> sleep_max w < delay then Inl OverflowError
      else if delay < 0 then Inl ValueError
      else Inr ())"

text \<open>
  The loop \<^verbatim>\<open>for i in range(retries)\<close>, by recursion on the indices still to visit. The
  handler returns \<^verbatim>\<open>None\<close> at the last index and sleeps otherwise; an exception of the
  handler itself leaves the function. Falling out of the loop returns \<^verbatim>\<open>None\<close>.
\<close>

fun geocode_loop ::
  "world \<Rightarrow> string \<Rightarrow> int \<Rightarrow> real \<Rightarrow> nat list \<Rightarrow> (exn + geo option) \<times> event list" where
  "geocode_loop w address retries delay [] = (Inr None, [])"
| "geocode_loop w address retries delay (i # is) =
     (case geocode_try w address (http w i (Search address)) of
        Inr res \<Rightarrow> (Inr res, [Get (Search address)])
      | Inl e \<Rightarrow>
          if int i = retries - 1 then (Inr None, [Get (Search address)])
          else
            (case py_sleep w delay of
               Inl e' \<Rightarrow> (Inl e', [Get (Search address)])
             | Inr u \<Rightarrow>
                 (case geocode_loop w address retries delay is of
                    (res, tr) \<Rightarrow> (res, Get (Search address) # Sleep delay # tr))))"

definition geocode_nominatim ::
  "world \<Rightarrow> string \<Rightarrow> int \<Rightarrow> real \<Rightarrow> (exn + geo option) \<times> event list" where
  "geocode_nominatim w address retries delay =
     (if address = [] then (Inr None, [])
      else geocode_loop w address retries delay [0 ..< nat retries])"

section \<open>Distances\<close>

text \<open>
  \<open>_deg_for_meters\<close> (lines 44 to 48). The radius is an integer or a float; the division
  by the float 111320.0 converts it. \<^verbatim>\<open>math.cos\<close> may raise.
\<close>

definition deg_for_meters :: "fpu \<Rightarrow> pyfloat \<Rightarrow> real \<Rightarrow> exn + pyfloat \<times> pyfloat" where
  "deg_for_meters fp lat_deg meters =
     (case to_float fp meters of
        Inl e \<Rightarrow> Inl e
      | Inr m \<Rightarrow>
          (let dlat = f_div fp (Finite m) (Finite 111320) in
           case f_cos fp (f_radians fp lat_deg) of
             Inl e \<Rightarrow> Inl e
           | Inr c \<Rightarrow> Inr (dlat, f_mul fp dlat c)))"

text \<open>
  \<open>_haversine_m\<close> (lines 50 to 57), operation by operation in the order Python
  evaluates them. The last two arguments come from the provider's body unchecked:
  subtracting a float from a non-number is a \<^verbatim>\<open>TypeError\<close>, and any of the conversions
  and functions may raise.
\<close>

definition haversine_m :: "fpu \<Rightarrow> pyfloat \<Rightarrow> pyfloat \<Rightarrow> json \<Rightarrow> json \<Rightarrow> exn + pyfloat" where
  "haversine_m fp lat1 lon1 lat2 lon2 =
     (case as_number lat2 of
        None \<Rightarrow> Inl TypeError
      | Some n2 \<Rightarrow>
     (case to_float fp n2 of
        Inl e \<Rightarrow> Inl e
      | Inr la2 \<Rightarrow>
     (case as_number lon2 of
        None \<Rightarrow> Inl TypeError
      | Some m2 \<Rightarrow>
     (case to_float fp m2 of
        Inl e \<Rightarrow> Inl e
      | Inr lo2 \<Rightarrow>
     (let R = Finite 6371000;
          dlat = f_radians fp (f_sub fp (Finite la2) lat1);
          dlon = f_radians fp (f_sub fp (Finite lo2) lon1)
      in
     (case f_sin fp (f_div fp dlat (Finite 2)) of
        Inl e \<Rightarrow> Inl e
      | Inr s1 \<Rightarrow>
     (case f_pow fp s1 2 of
        Inl e \<Rightarrow> Inl e
      | Inr p1 \<Rightarrow>
     (case f_cos fp (f_radians fp lat1) of
        Inl e \<Rightarrow> Inl e
      | Inr c1 \<Rightarrow>
     (case f_cos fp (f_radians fp (Finite la2)) of
        Inl e \<Rightarrow> Inl e
      | Inr c2 \<Rightarrow>
     (case f_sin fp (f_div fp dlon (Finite 2)) of
        Inl e \<Rightarrow> Inl e
      | Inr s2 \<Rightarrow>
     (case f_pow fp s2 2 of
        Inl e \<Rightarrow> Inl e
      | Inr p2 \<Rightarrow>
     (let a = f_add fp p1 (f_mul fp (f_mul fp c1 c2) p2)
      in
     (case f_sqrt fp a of
        Inl e \<Rightarrow> Inl e
      | Inr r \<Rightarrow>
     (case f_asin fp r of
        Inl e \<Rightarrow> Inl e
      | Inr t \<Rightarrow>
     Inr (f_mul fp (f_mul fp (Finite 2) R) t)))))))))))))))"

section \<open>Ranking\<close>

type_synonym entry = "bool \<times> pyfloat \<times> json"

text \<open>\<^verbatim>\<open>isinstance(geom, (list, tuple)) and len(geom) == 2\<close>.\<close>

fun is_pair :: "json \<Rightarrow> bool" where
  "is_pair (JArr [a, b]) = True"
| "is_pair _ = False"

text \<open>\<^verbatim>\<open>(it.get("computed_geometry") or {}).get("coordinates")\<close>.\<close>

definition coordinates_of :: "json \<Rightarrow> exn + json" where
  "coordinates_of it =
     (case py_get it ''computed_geometry'' JNull of
        Inl e \<Rightarrow> Inl e
      | Inr cg \<Rightarrow> py_get (py_or cg (JObj [])) ''coordinates'' JNull)"

text \<open>One round of the loop of \<open>rank_items\<close> (lines 72 to 77): the tuple appended for
  one item. \<^verbatim>\<open>float("inf")\<close> is \<open>Infinite\<close>.\<close>

definition rank_entry :: "fpu \<Rightarrow> pyfloat \<Rightarrow> pyfloat \<Rightarrow> json \<Rightarrow> exn + entry" where
  "rank_entry fp lat0 lon0 it =
     (case coordinates_of it of
        Inl e \<Rightarrow> Inl e
      | Inr geom \<Rightarrow>
          (case (case geom of
                   JArr [g0, g1] \<Rightarrow> haversine_m fp lat0 lon0 g1 g0
                 | _ \<Rightarrow> Inr Infinite) of
             Inl e \<Rightarrow> Inl e
           | Inr dst \<Rightarrow>
               (case py_get it ''is_pano'' JNull of
                  Inl e \<Rightarrow> Inl e
                | Inr p \<Rightarrow> Inr (truthy p, dst, it))))"

fun rank_entries :: "fpu \<Rightarrow> pyfloat \<Rightarrow> pyfloat \<Rightarrow> json list \<Rightarrow> exn + entry list" where
  "rank_entries fp lat0 lon0 [] = Inr []"
| "rank_entries fp lat0 lon0 (it # its) =
     (case rank_entry fp lat0 lon0 it of
        Inl e \<Rightarrow> Inl e
      | Inr t \<Rightarrow>
          (case rank_entries fp lat0 lon0 its of
             Inl e \<Rightarrow> Inl e
           | Inr ts \<Rightarrow> Inr (t # ts)))"

text \<open>The sort key \<^verbatim>\<open>(-int(x[0]), x[1])\<close>, compared as Python compares tuples:
  lexicographically.\<close>

definition rank_key :: "entry \<Rightarrow> int \<times> pyfloat" where
  "rank_key t = (- of_bool (fst t), fst (snd t))"

text \<open>\<^verbatim>\<open>ranked.sort(key=...)\<close>: Python's sort is stable, and on a total order of keys a
  stable sort has one result, the one of stable insertion sort.\<close>

definition sort_ranked :: "entry list \<Rightarrow> entry list" where
  "sort_ranked ts = sort_key rank_key ts"

definition rank_items :: "fpu \<Rightarrow> pyfloat \<Rightarrow> pyfloat \<Rightarrow> json \<Rightarrow> exn + entry list" where
  "rank_items fp lat0 lon0 items =
     (case py_iter items of
        Inl e \<Rightarrow> Inl e
      | Inr its \<Rightarrow>
          (case rank_entries fp lat0 lon0 its of
             Inl e \<Rightarrow> Inl e
           | Inr ts \<Rightarrow> Inr (sort_ranked ts)))"

section \<open>The resolver\<close>

text \<open>\<^verbatim>\<open>it.get("thumb_1024_url") or it.get("thumb_2048_url"), it\<close>.\<close>

definition outcome_of :: "json \<Rightarrow> exn + json \<times> json" where
  "outcome_of it =
     (case py_get it ''thumb_1024_url'' JNull of
        Inl e \<Rightarrow> Inl e
      | Inr small \<Rightarrow>
          if truthy small then Inr (small, it)
          else (case py_get it ''thumb_2048_url'' JNull of
                  Inl e \<Rightarrow> Inl e
                | Inr large \<Rightarrow> Inr (large, it)))"

text \<open>
  The body of either \<^verbatim>\<open>try\<close> block of \<open>mapillary_find_best\<close> (lines 82 to 97 and 105 to
  121, which differ only in the request), given the answer to its request: \<open>Inl\<close> is an
  exception raised inside the block, \<open>Inr (Some out)\<close> a \<^verbatim>\<open>return\<close>, \<open>Inr None\<close> the end
  of the block without a \<^verbatim>\<open>return\<close>.
\<close>

definition find_try ::
  "fpu \<Rightarrow> pyfloat \<Rightarrow> pyfloat \<Rightarrow> bool \<Rightarrow> response \<Rightarrow> exn + (json \<times> json) option" where
  "find_try fp lat0 lon0 require_pano resp =
     (case resp of
        Failed e \<Rightarrow> Inl e
      | Body j \<Rightarrow>
          (case py_get j ''data'' (JArr []) of
             Inl e \<Rightarrow> Inl e
           | Inr items \<Rightarrow>
               if truthy items then
                 (case rank_items fp lat0 lon0 items of
                    Inl e \<Rightarrow> Inl e
                  | Inr ranked \<Rightarrow>
                      if require_pano then
                        (case filter fst ranked of
                           [] \<Rightarrow> Inr None
                         | t # ts \<Rightarrow>
                             (case outcome_of (snd (snd t)) of
                                Inl e \<Rightarrow> Inl e
                              | Inr out \<Rightarrow> Inr (Some out)))
                      else
                        (case ranked of
                           [] \<Rightarrow> Inl IndexError
                         | t # ts \<Rightarrow>
                             (case outcome_of (snd (snd t)) of
                                Inl e \<Rightarrow> Inl e
                              | Inr out \<Rightarrow> Inr (Some out))))
               else Inr None))"

definition closeto_request :: "pyfloat \<Rightarrow> pyfloat \<Rightarrow> string \<Rightarrow> request" where
  "closeto_request lat0 lon0 token = CloseTo token 20 lat0 lon0"

text \<open>Lines 102 and 103, which are outside the \<^verbatim>\<open>try\<close> block of the loop: an exception
  of \<open>_deg_for_meters\<close> leaves \<open>mapillary_find_best\<close>.\<close>

definition bbox_request :: "fpu \<Rightarrow> pyfloat \<Rightarrow> pyfloat \<Rightarrow> string \<Rightarrow> real \<Rightarrow> exn + request" where
  "bbox_request fp lat0 lon0 token radius =
     (case deg_for_meters fp lat0 radius of
        Inl e \<Rightarrow> Inl e
      | Inr (dlat, dlon) \<Rightarrow>
          Inr (BBox token 50 (f_sub fp lon0 dlon) (f_sub fp lat0 dlat)
                             (f_add fp lon0 dlon) (f_add fp lat0 dlat)))"

text \<open>\<^verbatim>\<open>return None, None\<close>.\<close>

definition Empty :: "json \<times> json" where
  "Empty = (JNull, JNull)"

text \<open>
  The loop \<^verbatim>\<open>for radius in radii_m\<close> (lines 101 to 124); \<open>n\<close> is the number of network
  calls made before it. A \<^verbatim>\<open>return\<close> ends it, an exception inside the \<^verbatim>\<open>try\<close> block or
  the end of the block goes to the next radius.
\<close>

fun cascade ::
  "world \<Rightarrow> pyfloat \<Rightarrow> pyfloat \<Rightarrow> string \<Rightarrow> bool \<Rightarrow> nat \<Rightarrow> real list
     \<Rightarrow> (exn + json \<times> json) \<times> event list" where
  "cascade w lat0 lon0 token require_pano n [] = (Inr Empty, [])"
| "cascade w lat0 lon0 token require_pano n (radius # rs) =
     (case bbox_request (arith w) lat0 lon0 token radius of
        Inl e \<Rightarrow> (Inl e, [])
      | Inr req \<Rightarrow>
          (case find_try (arith w) lat0 lon0 require_pano (http w n req) of
             Inr (Some out) \<Rightarrow> (Inr out, [Get req])
           | _ \<Rightarrow>
               (case cascade w lat0 lon0 token require_pano (Suc n) rs of
                  (res, tr) \<Rightarrow> (res, Get req # tr))))"

text \<open>\<^verbatim>\<open>s.startswith(p)\<close>.\<close>

definition startswith :: "string \<Rightarrow> string \<Rightarrow> bool" where
  "startswith s p = (take (length p) s = p)"

text \<open>
  \<open>mapillary_find_best\<close>. An absent token is \<^verbatim>\<open>None\<close>; \<^verbatim>\<open>not token\<close> holds of \<^verbatim>\<open>None\<close> and
  of the empty string. The direct query is network call 0, the cascade starts at call 1.
\<close>

definition mapillary_find_best ::
  "world \<Rightarrow> pyfloat \<Rightarrow> pyfloat \<Rightarrow> string option \<Rightarrow> real list \<Rightarrow> bool
     \<Rightarrow> (exn + json \<times> json) \<times> event list" where
  "mapillary_find_best w lat0 lon0 token radii_m require_pano =
     (case token of
        None \<Rightarrow> (Inr Empty, [])
      | Some t \<Rightarrow>
          if t = [] \<or> \<not> startswith t ''MLY|'' then (Inr Empty, [])
          else
            (case find_try (arith w) lat0 lon0 require_pano
                    (http w 0 (closeto_request lat0 lon0 t)) of
               Inr (Some out) \<Rightarrow> (Inr out, [Get (closeto_request lat0 lon0 t)])
             | _ \<Rightarrow>
                 (case cascade w lat0 lon0 t require_pano 1 radii_m of
                    (res, tr) \<Rightarrow> (res, Get (closeto_request lat0 lon0 t) # tr))))"

text \<open>The default of \<open>radii_m\<close>.\<close>

definition default_radii :: "real list" where
  "default_radii = [150, 300, 600, 1200, 3000, 6000, 10000]"

text \<open>The defaults of \<open>geocode_nominatim\<close>: \<^verbatim>\<open>retries=3, delay=0.8\<close>.\<close>

definition default_retries :: int where
  "default_retries = 3"

definition default_delay :: real where
  "default_delay = 0.8"

section \<open>Two arithmetics\<close>

text \<open>
  The statements below hold for every arithmetic unless they name one. Two arithmetics
  are used where a computation is run: the exact one, which does not round, and the one
  of IEEE 754 doubles with rounding to nearest, ties to even, which is the arithmetic of
  CPython. Both are built from a rounding function. The operations on an infinite
  operand follow IEEE 754 where its result is a float; where its result is NaN (an
  infinity minus itself, zero times an infinity), which no run of the program from finite
  numbers reaches, an infinity is returned. The functions of the C library are taken
  correctly rounded, which the library does not promise; the computations run below call
  them only where their result is exact.
\<close>

definition round_even :: "real \<Rightarrow> int" where
  "round_even x =
     (let f = \<lfloor>x\<rfloor> in
      if x - of_int f < 1 / 2 then f
      else if 1 / 2 < x - of_int f then f + 1
      else if even f then f else f + 1)"

definition binary64 :: "real \<Rightarrow> pyfloat" where
  "binary64 x =
     (if x = 0 then Finite 0
      else
        (let e = max (\<lfloor>log 2 \<bar>x\<bar>\<rfloor> - 52) (- 1074);
             y = of_int (round_even (x / 2 powr of_int e)) * 2 powr of_int e
         in if 2 ^ 1024 \<le> \<bar>y\<bar> then (if 0 < x then Infinite else NegInfinite)
            else Finite y))"

text \<open>The exponent of the grid on which a number is rounded, and the nearest point of
  that grid: the two parts of \<open>binary64\<close>, named for the proofs about it.\<close>

definition exponent_of :: "real \<Rightarrow> int" where
  "exponent_of x = max (\<lfloor>log 2 \<bar>x\<bar>\<rfloor> - 52) (- 1074)"

definition nearest :: "real \<Rightarrow> real" where
  "nearest x =
     (if x = 0 then 0
      else of_int (round_even (x / 2 powr of_int (exponent_of x))) * 2 powr of_int (exponent_of x))"

fun neg :: "pyfloat \<Rightarrow> pyfloat" where
  "neg (Finite x) = Finite (- x)"
| "neg Infinite = NegInfinite"
| "neg NegInfinite = Infinite"

fun sign :: "pyfloat \<Rightarrow> real" where
  "sign (Finite x) = x"
| "sign Infinite = 1"
| "sign NegInfinite = - 1"

fun add_with :: "(real \<Rightarrow> pyfloat) \<Rightarrow> pyfloat \<Rightarrow> pyfloat \<Rightarrow> pyfloat" where
  "add_with rnd (Finite x) (Finite y) = rnd (x + y)"
| "add_with rnd (Finite x) b = b"
| "add_with rnd a b = a"

definition sub_with :: "(real \<Rightarrow> pyfloat) \<Rightarrow> pyfloat \<Rightarrow> pyfloat \<Rightarrow> pyfloat" where
  "sub_with rnd a b = add_with rnd a (neg b)"

fun mul_with :: "(real \<Rightarrow> pyfloat) \<Rightarrow> pyfloat \<Rightarrow> pyfloat \<Rightarrow> pyfloat" where
  "mul_with rnd (Finite x) (Finite y) = rnd (x * y)"
| "mul_with rnd a b = (if sign a * sign b < 0 then NegInfinite else Infinite)"

fun div_with :: "(real \<Rightarrow> pyfloat) \<Rightarrow> pyfloat \<Rightarrow> pyfloat \<Rightarrow> pyfloat" where
  "div_with rnd (Finite x) (Finite y) = rnd (x / y)"
| "div_with rnd (Finite x) b = Finite 0"
| "div_with rnd a b = (if sign a * sign b < 0 then NegInfinite else Infinite)"

text \<open>\<^verbatim>\<open>x ** n\<close> raises \<^verbatim>\<open>OverflowError\<close> when the power of a finite float is out of range.\<close>

fun pow_with :: "(real \<Rightarrow> pyfloat) \<Rightarrow> pyfloat \<Rightarrow> nat \<Rightarrow> exn + pyfloat" where
  "pow_with rnd (Finite x) n =
     (case rnd (x ^ n) of Finite y \<Rightarrow> Inr (Finite y) | _ \<Rightarrow> Inl OverflowError)"
| "pow_with rnd a n = Inr (if even n \<or> a = Infinite then Infinite else NegInfinite)"

text \<open>\<^verbatim>\<open>math.sin\<close> and \<^verbatim>\<open>math.cos\<close> raise \<^verbatim>\<open>ValueError\<close> on an infinity, \<^verbatim>\<open>math.sqrt\<close> on a
  negative number, \<^verbatim>\<open>math.asin\<close> outside [-1, 1].\<close>

fun sin_with :: "(real \<Rightarrow> pyfloat) \<Rightarrow> pyfloat \<Rightarrow> exn + pyfloat" where
  "sin_with rnd (Finite x) = Inr (rnd (sin x))"
| "sin_with rnd a = Inl ValueError"

fun cos_with :: "(real \<Rightarrow> pyfloat) \<Rightarrow> pyfloat \<Rightarrow> exn + pyfloat" where
  "cos_with rnd (Finite x) = Inr (rnd (cos x))"
| "cos_with rnd a = Inl ValueError"

fun sqrt_with :: "(real \<Rightarrow> pyfloat) \<Rightarrow> pyfloat \<Rightarrow> exn + pyfloat" where
  "sqrt_with rnd (Finite x) = (if x < 0 then Inl ValueError else Inr (rnd (sqrt x)))"
| "sqrt_with rnd Infinite = Inr Infinite"
| "sqrt_with rnd NegInfinite = Inl ValueError"

fun asin_with :: "(real \<Rightarrow> pyfloat) \<Rightarrow> pyfloat \<Rightarrow> exn + pyfloat" where
  "asin_with rnd (Finite x) = (if 1 < \<bar>x\<bar> then Inl ValueError else Inr (rnd (arcsin x)))"
| "asin_with rnd a = Inl ValueError"

definition to_float_with :: "(real \<Rightarrow> pyfloat) \<Rightarrow> real \<Rightarrow> exn + real" where
  "to_float_with rnd x = (case rnd x of Finite y \<Rightarrow> Inr y | _ \<Rightarrow> Inl OverflowError)"

text \<open>\<^verbatim>\<open>math.radians(x)\<close> is the product of \<open>x\<close> and a constant of the C source, the double
  nearest to pi / 180.\<close>

definition arithmetic :: "(real \<Rightarrow> pyfloat) \<Rightarrow> real \<Rightarrow> fpu" where
  "arithmetic rnd deg_to_rad =
     \<lparr>to_float = to_float_with rnd,
      f_add = add_with rnd,
      f_sub = sub_with rnd,
      f_mul = mul_with rnd,
      f_div = div_with rnd,
      f_pow = pow_with rnd,
      f_radians = (\<lambda>a. mul_with rnd a (Finite deg_to_rad)),
      f_sin = sin_with rnd,
      f_cos = cos_with rnd,
      f_sqrt = sqrt_with rnd,
      f_asin = asin_with rnd\<rparr>"

definition exact_fpu :: fpu where
  "exact_fpu = arithmetic Finite (pi / 180)"

definition double_fpu :: fpu where
  "double_fpu = arithmetic binary64 (5030569068109113 / 2 ^ 58)"

section \<open>Reading a list of effects\<close>

fun requests_of :: "event list \<Rightarrow> request list" where
  "requests_of [] = []"
| "requests_of (Get r # es) = r # requests_of es"
| "requests_of (Sleep d # es) = requests_of es"

fun is_bbox :: "request \<Rightarrow> bool" where
  "is_bbox (BBox t l a b c d) = True"
| "is_bbox _ = False"

text \<open>The effects of \<open>k\<close> failed attempts, each followed by its sleep, and of one more
  attempt.\<close>

definition attempts :: "string \<Rightarrow> real \<Rightarrow> nat \<Rightarrow> event list" where
  "attempts address delay k =
     concat (replicate k [Get (Search address), Sleep delay]) @ [Get (Search address)]"

section \<open>Vocabulary of the statements\<close>

text \<open>The value of a field of a candidate, \<^verbatim>\<open>None\<close> when the field is absent.\<close>

definition field :: "json \<Rightarrow> string \<Rightarrow> json" where
  "field it k = (case py_get it k JNull of Inl e \<Rightarrow> JNull | Inr v \<Rightarrow> v)"

text \<open>A candidate whose coordinate is absent: the test of line 73 fails on it.\<close>

definition coordinate_absent :: "json \<Rightarrow> bool" where
  "coordinate_absent it = (case coordinates_of it of Inl e \<Rightarrow> False | Inr g \<Rightarrow> \<not> is_pair g)"


text \<open>The order the ranking is meant to produce: panoramic entries before the others,
  and among entries of one kind the nearer first.\<close>

definition ranks_before :: "entry \<Rightarrow> entry \<Rightarrow> bool" where
  "ranks_before a b = ((fst a \<and> \<not> fst b) \<or> (fst a = fst b \<and> fst (snd a) \<le> fst (snd b)))"

text \<open>
  The qualifying outcome of an answer, in the words of the specification: the query
  succeeded, the candidates of its body were ranked, and the candidate is the first
  panoramic entry of the ranking when a panorama is required and the first entry
  otherwise; with it goes its preview URL. An answer whose candidates cannot all be
  ranked has none.
\<close>

definition select_entry :: "bool \<Rightarrow> entry list \<Rightarrow> entry option" where
  "select_entry require_pano ranked =
     (if require_pano then find fst ranked
      else (case ranked of [] \<Rightarrow> None | t # ts \<Rightarrow> Some t))"

definition qualifying ::
  "fpu \<Rightarrow> pyfloat \<Rightarrow> pyfloat \<Rightarrow> bool \<Rightarrow> response \<Rightarrow> (json \<times> json) option" where
  "qualifying fp lat0 lon0 require_pano resp =
     (case resp of
        Failed e \<Rightarrow> None
      | Body j \<Rightarrow>
          (case py_get j ''data'' (JArr []) of
             Inl e \<Rightarrow> None
           | Inr items \<Rightarrow>
               (case rank_items fp lat0 lon0 items of
                  Inl e \<Rightarrow> None
                | Inr ranked \<Rightarrow>
                    (case select_entry require_pano ranked of
                       None \<Rightarrow> None
                     | Some t \<Rightarrow>
                         Some (py_or (field (snd (snd t)) ''thumb_1024_url'')
                                     (field (snd (snd t)) ''thumb_2048_url''),
                               snd (snd t))))))"

text \<open>An arithmetic whose conversion, division by 111320 and multiplication by a positive
  float do not reverse an order, as rounding to nearest does not.\<close>

definition monotone_arith :: "fpu \<Rightarrow> bool" where
  "monotone_arith fp \<longleftrightarrow>
     (\<forall>x y a b. x \<le> y \<and> to_float fp x = Inr a \<and> to_float fp y = Inr b \<longrightarrow> a \<le> b)
     \<and> (\<forall>x y. x \<le> y \<longrightarrow>
            f_div fp (Finite x) (Finite 111320) \<le> f_div fp (Finite y) (Finite 111320))
     \<and> (\<forall>a b c. a \<le> b \<and> 0 < c \<longrightarrow> f_mul fp a (Finite c) \<le> f_mul fp b (Finite c))"

section \<open>Candidates and worlds used in the examples\<close>

text \<open>A candidate with a small thumbnail, no geometry and no panorama flag; a panoramic
  candidate with no geometry and a large thumbnail only; a candidate at the point (0, 0)
  with a large thumbnail only; a candidate with nothing but its identifier; a candidate
  on the equator at longitude 180.\<close>

definition item_a :: json where
  "item_a = JObj [(''id'', JStr ''a''), (''thumb_1024_url'', JStr ''u'')]"

definition item_b :: json where
  "item_b = JObj [(''id'', JStr ''b''), (''is_pano'', JBool True),
                  (''thumb_2048_url'', JStr ''p'')]"

definition item_c :: json where
  "item_c = JObj [(''id'', JStr ''c''),
                  (''computed_geometry'', JObj [(''coordinates'', JArr [JNum 0, JNum 0])]),
                  (''thumb_2048_url'', JStr ''v'')]"

definition item_d :: json where
  "item_d = JObj [(''id'', JStr ''d'')]"


text \<open>
  The worlds have the arithmetic of doubles and the longest sleep of a 64-bit count of
  nanoseconds. Their providers: one that fails every call; one that answers every call
  with no match; one that always answers with the one candidate that has no thumbnail;
  one whose first answer is a failure and whose later answers hold two candidates
  without coordinates; one that has a non-panoramic candidate for the first two calls
  and a panoramic one from the third call on; one whose first answer is a failure, whose
  second holds a string next to a panoramic candidate and whose later answers are empty;
  one whose first answer holds a string next to a candidate and whose later answers are
  empty.
\<close>

definition plain_world :: "(nat \<Rightarrow> request \<Rightarrow> response) \<Rightarrow> world" where
  "plain_world answers =
     \<lparr>http = answers, str_to_float = (\<lambda>s. None), arith = double_fpu,
      sleep_max = 9223372036\<rparr>"

definition dead_world :: world where
  "dead_world = plain_world (\<lambda>n req. Failed RequestException)"

definition empty_world :: world where
  "empty_world = plain_world (\<lambda>n req. Body (JArr []))"

definition bare_world :: world where
  "bare_world = plain_world (\<lambda>n req. Body (JObj [(''data'', JArr [item_d])]))"

definition nogeo_world :: world where
  "nogeo_world =
     plain_world (\<lambda>n req. if n = 0 then Failed RequestException
                           else Body (JObj [(''data'', JArr [item_a, item_d])]))"

definition late_pano_world :: world where
  "late_pano_world =
     plain_world (\<lambda>n req. if n < 2 then Body (JObj [(''data'', JArr [item_a])])
                           else Body (JObj [(''data'', JArr [item_a, item_b])]))"

definition sibling_world :: world where
  "sibling_world =
     plain_world (\<lambda>n req. if n = 0 then Failed RequestException
                           else if n = 1 then Body (JObj [(''data'', JArr [JStr ''x'', item_b])])
                           else Body (JObj [(''data'', JArr [])]))"

definition stray_world :: world where
  "stray_world =
     plain_world (\<lambda>n req. if n = 0 then Body (JObj [(''data'', JArr [JStr ''x'', item_a])])
                           else Body (JObj [(''data'', JArr [])]))"

text \<open>Two adjacent doubles, 120000 plus one and plus two units in the last place, and the
  double nearest to their quotients by 111320.\<close>

definition meters_lo :: real where
  "meters_lo = 120000 + 1 / 2 ^ 36"

definition meters_hi :: real where
  "meters_hi = 120000 + 2 / 2 ^ 36"

definition offset_q :: real where
  "offset_q = 4854760647542756 / 2 ^ 52"

section \<open>Running the arithmetic of doubles\<close>

text \<open>
  A number between two consecutive powers of two is rounded on the grid of that binade.
  The numbers 0, 1, 150, 300 and 12742000 are doubles; so are the two radii \<open>meters_lo\<close> and
  \<open>meters_hi\<close>, whose quotients by 111320 are rounded to one and the same double.
\<close>

lemma binary64_at:
  assumes "x \<noteq> 0" and "2 powr of_int k \<le> \<bar>x\<bar>" and "\<bar>x\<bar> < 2 powr (of_int k + 1)"
    and "- 1022 \<le> k"
  shows "binary64 x =
     (if 2 ^ 1024 \<le> \<bar>real_of_int (round_even (x / 2 powr of_int (k - 52))) * 2 powr of_int (k - 52)\<bar>
      then (if 0 < x then Infinite else NegInfinite)
      else Finite (of_int (round_even (x / 2 powr of_int (k - 52))) * 2 powr of_int (k - 52)))"
proof -
  have "0 < \<bar>x\<bar>" using assms(1) by simp
  then have "\<lfloor>log 2 \<bar>x\<bar>\<rfloor> = k"
    using assms(2,3) by (simp add: floor_log_eq_powr_iff)
  moreover have "max (k - 52) (- 1074) = k - 52"
    using assms(4) by simp
  ultimately show ?thesis
    using assms(1) by (simp add: binary64_def Let_def)
qed

lemma round_even_int: "round_even (of_int n) = n"
  by (simp add: round_even_def)

lemma binary64_0: "binary64 0 = Finite 0"
  by (simp add: binary64_def)

lemma binary64_1: "binary64 1 = Finite 1"
proof -
  have "(1::real) * 2 ^ 52 = of_int (2 ^ 52)" by simp
  then have r: "round_even (1 * 2 ^ 52) = 2 ^ 52"
    by (simp only: round_even_int)
  show ?thesis
    using binary64_at [of 1 0] r by (simp add: powr_minus field_simps)
qed

lemma binary64_12742000: "binary64 12742000 = Finite 12742000"
proof -
  have "(12742000::real) * 2 ^ 29 = of_int (12742000 * 2 ^ 29)" by simp
  then have r: "round_even (12742000 * 2 ^ 29) = 12742000 * 2 ^ 29"
    by (simp only: round_even_int)
  show ?thesis
    using binary64_at [of 12742000 23] r by (simp add: powr_minus field_simps)
qed

lemma binary64_300: "binary64 300 = Finite 300"
proof -
  have "(300::real) * 2 ^ 44 = of_int (300 * 2 ^ 44)" by simp
  then have r: "round_even (300 * 2 ^ 44) = 300 * 2 ^ 44"
    by (simp only: round_even_int)
  show ?thesis
    using binary64_at [of 300 8] r by (simp add: powr_minus field_simps)
qed

lemma binary64_150: "binary64 150 = Finite 150"
proof -
  have "(150::real) * 2 ^ 45 = of_int (150 * 2 ^ 45)" by simp
  then have r: "round_even (150 * 2 ^ 45) = 150 * 2 ^ 45"
    by (simp only: round_even_int)
  show ?thesis
    using binary64_at [of 150 7] r by (simp add: powr_minus field_simps)
qed


lemma floor_frac:
  fixes p q :: int
  assumes "0 < q" and "n * q \<le> p" and "p < (n + 1) * q"
  shows "\<lfloor>real_of_int p / real_of_int q\<rfloor> = n"
proof -
  have "real_of_int (n * q) \<le> real_of_int p"
    using assms(2) by (simp only: of_int_le_iff)
  then have "real_of_int n \<le> real_of_int p / real_of_int q"
    using assms(1) by (simp add: pos_le_divide_eq)
  moreover have "real_of_int p < real_of_int ((n + 1) * q)"
    using assms(3) by (simp only: of_int_less_iff)
  then have "real_of_int p / real_of_int q < real_of_int n + 1"
    using assms(1) by (simp add: pos_divide_less_eq)
  ultimately show ?thesis by (simp add: floor_eq_iff)
qed

lemma round_even_up: "\<lfloor>s\<rfloor> = n \<Longrightarrow> 1 / 2 < s - of_int n \<Longrightarrow> round_even s = n + 1"
  by (simp add: round_even_def)

lemma round_even_down: "\<lfloor>s\<rfloor> = n \<Longrightarrow> s - of_int n < 1 / 2 \<Longrightarrow> round_even s = n"
  by (simp add: round_even_def)

lemma quotient_1: "binary64 (meters_lo / 111320) = Finite offset_q"
proof -
  let ?x = "meters_lo / 111320"
  have v: "?x * 2 ^ 52 = real_of_int 67553994410557448192 / real_of_int 13915"
    by (simp add: meters_lo_def)
  have f: "\<lfloor>?x * 2 ^ 52\<rfloor> = 4854760647542755"
    unfolding v by (rule floor_frac) simp_all
  have "1 / 2 < ?x * 2 ^ 52 - of_int 4854760647542755"
    unfolding v by simp
  from round_even_up [OF f this] have r: "round_even (?x * 2 ^ 52) = 4854760647542756"
    by simp
  have b: "?x \<noteq> 0" "2 powr of_int 0 \<le> \<bar>?x\<bar>" "\<bar>?x\<bar> < 2 powr (of_int 0 + 1)"
    by (simp_all add: meters_lo_def)
  have e: "?x / 2 powr of_int (0 - 52) = ?x * 2 ^ 52"
    by (simp add: powr_minus field_simps)
  have "(if 2 ^ 1024 \<le> \<bar>real_of_int (round_even (?x / 2 powr of_int (0 - 52))) * 2 powr of_int (0 - 52)\<bar>
      then (if 0 < ?x then Infinite else NegInfinite)
      else Finite (of_int (round_even (?x / 2 powr of_int (0 - 52))) * 2 powr of_int (0 - 52)))
     = Finite offset_q"
    unfolding e r by (simp add: powr_minus offset_q_def)
  with binary64_at [OF b] show ?thesis by (simp only:)
qed

lemma quotient_2: "binary64 (meters_hi / 111320) = Finite offset_q"
proof -
  let ?x = "meters_hi / 111320"
  have v: "?x * 2 ^ 52 = real_of_int 6141272219141586944 / real_of_int 1265"
    by (simp add: meters_hi_def)
  have f: "\<lfloor>?x * 2 ^ 52\<rfloor> = 4854760647542756"
    unfolding v by (rule floor_frac) simp_all
  have "?x * 2 ^ 52 - of_int 4854760647542756 < 1 / 2"
    unfolding v by simp
  from round_even_down [OF f this] have r: "round_even (?x * 2 ^ 52) = 4854760647542756" .
  have b: "?x \<noteq> 0" "2 powr of_int 0 \<le> \<bar>?x\<bar>" "\<bar>?x\<bar> < 2 powr (of_int 0 + 1)"
    by (simp_all add: meters_hi_def)
  have e: "?x / 2 powr of_int (0 - 52) = ?x * 2 ^ 52"
    by (simp add: powr_minus field_simps)
  have "(if 2 ^ 1024 \<le> \<bar>real_of_int (round_even (?x / 2 powr of_int (0 - 52))) * 2 powr of_int (0 - 52)\<bar>
      then (if 0 < ?x then Infinite else NegInfinite)
      else Finite (of_int (round_even (?x / 2 powr of_int (0 - 52))) * 2 powr of_int (0 - 52)))
     = Finite offset_q"
    unfolding e r by (simp add: powr_minus offset_q_def)
  with binary64_at [OF b] show ?thesis by (simp only:)
qed

lemma quotient_fix: "binary64 offset_q = Finite offset_q"
proof -
  have "offset_q * 2 ^ 52 = of_int 4854760647542756" by (simp add: offset_q_def)
  then have r: "round_even (offset_q * 2 ^ 52) = 4854760647542756"
    by (simp only: round_even_int)
  have b: "offset_q \<noteq> 0" "2 powr of_int 0 \<le> \<bar>offset_q\<bar>" "\<bar>offset_q\<bar> < 2 powr (of_int 0 + 1)"
    by (simp_all add: offset_q_def)
  show ?thesis
    using binary64_at [OF b] r by (simp add: powr_minus field_simps) (simp add: offset_q_def)
qed

lemma meters_1: "binary64 meters_lo = Finite meters_lo"
proof -
  have "meters_lo * 2 ^ 36 = of_int 8246337208320001" by (simp add: meters_lo_def)
  then have r: "round_even (meters_lo * 2 ^ 36) = 8246337208320001"
    by (simp only: round_even_int)
  have b: "meters_lo \<noteq> 0" "2 powr of_int 16 \<le> \<bar>meters_lo\<bar>" "\<bar>meters_lo\<bar> < 2 powr (of_int 16 + 1)"
    by (simp_all add: meters_lo_def)
  show ?thesis
    using binary64_at [OF b] r by (simp add: powr_minus field_simps) (simp add: meters_lo_def)
qed

lemma meters_2: "binary64 meters_hi = Finite meters_hi"
proof -
  have "meters_hi * 2 ^ 36 = of_int 8246337208320002" by (simp add: meters_hi_def)
  then have r: "round_even (meters_hi * 2 ^ 36) = 8246337208320002"
    by (simp only: round_even_int)
  have b: "meters_hi \<noteq> 0" "2 powr of_int 16 \<le> \<bar>meters_hi\<bar>" "\<bar>meters_hi\<bar> < 2 powr (of_int 16 + 1)"
    by (simp_all add: meters_hi_def)
  show ?thesis
    using binary64_at [OF b] r by (simp add: powr_minus field_simps) (simp add: meters_hi_def)
qed

text \<open>The definitions unfolded to run an operation of one of the two arithmetics.\<close>

lemmas arith_defs = arithmetic_def double_fpu_def exact_fpu_def sub_with_def to_float_with_def

lemma offsets_1:
  "deg_for_meters double_fpu (Finite 0) meters_lo = Inr (Finite offset_q, Finite offset_q)"
  by (simp add: deg_for_meters_def arith_defs binary64_0 binary64_1 meters_1 quotient_1
      quotient_fix Let_def)

lemma offsets_2:
  "deg_for_meters double_fpu (Finite 0) meters_hi = Inr (Finite offset_q, Finite offset_q)"
  by (simp add: deg_for_meters_def arith_defs binary64_0 binary64_1 meters_2 quotient_2
      quotient_fix Let_def)

text \<open>Rounding a number below \<open>2 ^ 1023\<close> in absolute value gives a finite double.\<close>

lemma round_even_bound:
  assumes "\<bar>s\<bar> < of_int n"
  shows "\<bar>round_even s\<bar> \<le> n"
proof -
  have "s < of_int n" "- of_int n < s" using assms by linarith+
  then have "\<lfloor>s\<rfloor> < n" "- n \<le> \<lfloor>s\<rfloor>"
    by (simp_all add: floor_less_iff le_floor_iff)
  moreover have "round_even s = \<lfloor>s\<rfloor> \<or> round_even s = \<lfloor>s\<rfloor> + 1"
    by (auto simp: round_even_def Let_def)
  ultimately show ?thesis by linarith
qed

lemma binary64_finite:
  assumes "\<bar>x\<bar> < 2 ^ 1023"
  shows "\<exists>y. binary64 x = Finite y"
proof (cases "x = 0")
  case True
  then show ?thesis by (simp add: binary64_def)
next
  case False
  define k where "k = \<lfloor>log 2 \<bar>x\<bar>\<rfloor>"
  define e where "e = max (k - 52) (- 1074)"
  have xp: "0 < \<bar>x\<bar>" using False by simp
  have "log 2 \<bar>x\<bar> < of_int k + 1"
    unfolding k_def by linarith
  then have up: "\<bar>x\<bar> < 2 powr (of_int k + 1)"
    using xp by (simp add: log_less_iff)
  have l: "log 2 ((2::real) ^ 1023) = real (1023::nat)"
    by (rule log_pow_cancel) simp_all
  have "log 2 \<bar>x\<bar> < log 2 (2 ^ 1023)"
    using xp assms by (simp only: log_less_cancel_iff rel_simps zero_less_power zero_less_numeral)
  then have "log 2 \<bar>x\<bar> < 1023"
    unfolding l by simp
  then have "k < 1023"
    unfolding k_def by (simp add: floor_less_iff)
  then have e_le: "e \<le> 970" unfolding e_def by simp
  have e_ge: "k - 52 \<le> e" unfolding e_def by simp
  have pos: "0 < 2 powr real_of_int e" by simp
  have "2 powr (of_int k + 1) \<le> 2 powr (real_of_int e + 53)"
    using e_ge by simp
  also have "\<dots> = 2 powr real_of_int e * 2 ^ 53"
    by (simp add: powr_add)
  finally have "\<bar>x\<bar> < 2 powr real_of_int e * 2 ^ 53"
    using up by linarith
  then have "\<bar>x\<bar> / 2 powr real_of_int e < 2 ^ 53"
    using pos by (simp add: pos_divide_less_eq mult.commute)
  then have "\<bar>x / 2 powr real_of_int e\<bar> < real_of_int (2 ^ 53)"
    by simp
  from round_even_bound [OF this]
  have r: "\<bar>real_of_int (round_even (x / 2 powr real_of_int e))\<bar> \<le> 2 ^ 53"
    by (metis of_int_abs of_int_le_iff of_int_numeral of_int_power)
  have "real_of_int e \<le> real_of_int 970"
    using e_le by (simp only: of_int_le_iff)
  then have "2 powr real_of_int e \<le> 2 powr real_of_int 970"
    by (rule powr_mono) simp
  then have "\<bar>real_of_int (round_even (x / 2 powr real_of_int e))\<bar> * 2 powr real_of_int e
      \<le> 2 ^ 53 * 2 powr real_of_int 970"
    using r by (intro mult_mono) simp_all
  also have "(2::real) ^ 53 * 2 powr real_of_int 970 = 2 ^ 1023"
    by simp
  also have "(2::real) ^ 1023 < 2 ^ 1024"
    by simp
  finally have fin: "\<not> 2 ^ 1024
      \<le> \<bar>real_of_int (round_even (x / 2 powr real_of_int e)) * 2 powr real_of_int e\<bar>"
    by (simp add: abs_mult)
  show ?thesis
    using False fin
    by (simp add: binary64_def Let_def k_def [symmetric] e_def [symmetric])
qed

lemma deg_for_meters_double:
  assumes "\<bar>la\<bar> < 2 ^ 1023" and "\<bar>r\<bar> < 2 ^ 1023"
  shows "\<exists>d. deg_for_meters double_fpu (Finite la) r = Inr d"
proof -
  from binary64_finite [OF assms(2)] obtain m where m: "binary64 r = Finite m" by blast
  have "\<bar>la * (5030569068109113 / 2 ^ 58)\<bar> \<le> \<bar>la\<bar> * 1"
    unfolding abs_mult by (intro mult_left_mono) simp_all
  then have "\<bar>la * (5030569068109113 / 2 ^ 58)\<bar> < 2 ^ 1023"
    using assms(1) by linarith
  from binary64_finite [OF this] obtain a
    where a: "binary64 (la * (5030569068109113 / 2 ^ 58)) = Finite a" by blast
  show ?thesis
    using m a by (simp add: deg_for_meters_def arith_defs Let_def)
qed

text \<open>The integer \<open>2 ^ 1024\<close> is beyond the doubles.\<close>

lemma binary64_huge: "binary64 (2 ^ 1024) = Infinite"
proof -
  have "(2::real) ^ 1024 / 2 ^ 972 = of_int (2 ^ 52)" by simp
  then have r: "round_even (2 ^ 1024 / 2 ^ 972) = 2 ^ 52"
    by (simp only: round_even_int)
  show ?thesis
    using binary64_at [of "2 ^ 1024" 1024] r by (simp add: powr_minus field_simps)
qed

text \<open>
  Rounding to nearest does not reverse an order: on one grid the nearest grid point is
  monotone, and between two numbers with different grids lies a power of two that belongs
  to both. Hence the conversion, the division by 111320 and the multiplication by a
  positive float of the arithmetic of doubles preserve the order.
\<close>

lemma binary64_nearest:
  "binary64 x = (if 2 ^ 1024 \<le> \<bar>nearest x\<bar> then (if 0 < x then Infinite else NegInfinite)
                 else Finite (nearest x))"
  by (simp add: binary64_def nearest_def exponent_of_def Let_def)

lemma round_even_cases: "round_even s = \<lfloor>s\<rfloor> \<or> round_even s = \<lfloor>s\<rfloor> + 1"
  by (auto simp: round_even_def Let_def)

lemma round_even_mono:
  assumes "s \<le> t"
  shows "round_even s \<le> round_even t"
proof (cases "\<lfloor>s\<rfloor> = \<lfloor>t\<rfloor>")
  case True
  then show ?thesis
    using assms by (auto simp: round_even_def Let_def)
next
  case False
  then have "\<lfloor>s\<rfloor> < \<lfloor>t\<rfloor>"
    using floor_mono [OF assms] by linarith
  then show ?thesis
    using round_even_cases [of s] round_even_cases [of t] by linarith
qed

lemma round_even_neg: "round_even (- s) = - round_even s"
proof (cases "s = of_int \<lfloor>s\<rfloor>")
  case True
  then obtain n where "s = of_int n" by blast
  then have "- s = of_int (- n)" by simp
  then show ?thesis
    using \<open>s = of_int n\<close> by (simp only: round_even_int)
next
  case False
  define r where "r = real_of_int \<lfloor>s\<rfloor>"
  have lt: "r < s"
    using False of_int_floor_le [of s] unfolding r_def by linarith
  have ub: "s < r + 1"
    unfolding r_def by linarith
  have c: "real_of_int (- \<lfloor>s\<rfloor> - 1) = - r - 1"
    unfolding r_def by simp
  have f: "\<lfloor>- s\<rfloor> = - \<lfloor>s\<rfloor> - 1"
  proof (rule floor_unique)
    show "real_of_int (- \<lfloor>s\<rfloor> - 1) \<le> - s"
      unfolding c using ub by linarith
    show "- s < real_of_int (- \<lfloor>s\<rfloor> - 1) + 1"
      unfolding c using lt by linarith
  qed
  show ?thesis
    unfolding round_even_def Let_def f
    by (auto simp: algebra_simps)
qed


lemma two_powr_int: "0 \<le> n \<Longrightarrow> 2 powr real_of_int n = real_of_int (2 ^ nat n)"
proof -
  assume "0 \<le> n"
  then have "real_of_int n = real (nat n)" by simp
  then have "2 powr real_of_int n = 2 powr real (nat n)" by (simp only:)
  also have "\<dots> = 2 ^ nat n" by (simp add: powr_realpow)
  finally show ?thesis by simp
qed

lemma exponent_of_neg: "exponent_of (- x) = exponent_of x"
  by (simp add: exponent_of_def)

lemma nearest_neg: "nearest (- x) = - nearest x"
proof (cases "x = 0")
  case True
  then show ?thesis by (simp add: nearest_def)
next
  case False
  have "- x / 2 powr real_of_int (exponent_of x) = - (x / 2 powr real_of_int (exponent_of x))"
    by simp
  then show ?thesis
    using False by (simp only: nearest_def exponent_of_neg round_even_neg) simp
qed

lemma nearest_pos:
  "0 < x \<Longrightarrow> nearest x
     = of_int (round_even (x / 2 powr of_int (exponent_of x))) * 2 powr of_int (exponent_of x)"
  by (simp add: nearest_def)

lemma nearest_nonneg:
  assumes "0 \<le> x"
  shows "0 \<le> nearest x"
proof (cases "x = 0")
  case True
  then show ?thesis by (simp add: nearest_def)
next
  case False
  then have x: "0 < x" using assms by simp
  have "0 \<le> x / 2 powr of_int (exponent_of x)"
    using x by simp
  from round_even_mono [OF this] have "0 \<le> round_even (x / 2 powr of_int (exponent_of x))"
    using round_even_int [of 0] by simp
  then show ?thesis
    unfolding nearest_pos [OF x] by simp
qed

lemma nearest_upper:
  assumes "0 < x" and "x \<le> 2 powr of_int m" and "exponent_of x \<le> m"
  shows "nearest x \<le> 2 powr of_int m"
proof -
  define e where "e = exponent_of x"
  define p where "p = 2 powr real_of_int e"
  have p: "0 < p" unfolding p_def by simp
  have q: "2 powr real_of_int m = 2 powr real_of_int (m - e) * p"
    unfolding p_def by (simp add: powr_add [symmetric])
  have "x / p \<le> 2 powr real_of_int m / p"
    using assms(2) p by (simp add: divide_right_mono)
  also have "\<dots> = 2 powr real_of_int (m - e)"
    unfolding q using p by simp
  also have "\<dots> = real_of_int (2 ^ nat (m - e))"
    using assms(3) unfolding e_def by (intro two_powr_int) simp
  finally have "round_even (x / p) \<le> round_even (real_of_int (2 ^ nat (m - e)))"
    by (rule round_even_mono)
  then have "round_even (x / p) \<le> 2 ^ nat (m - e)"
    by (simp only: round_even_int)
  then have "real_of_int (round_even (x / p)) \<le> real_of_int (2 ^ nat (m - e))"
    by (simp only: of_int_le_iff)
  then have "real_of_int (round_even (x / p)) * p \<le> real_of_int (2 ^ nat (m - e)) * p"
    using p by (simp only: mult_le_cancel_right_pos)
  also have "real_of_int (2 ^ nat (m - e)) = 2 powr real_of_int (m - e)"
    using assms(3) unfolding e_def by (intro two_powr_int [symmetric]) simp
  finally show ?thesis
    unfolding nearest_pos [OF assms(1)] q e_def [symmetric] p_def [symmetric] .
qed

lemma nearest_lower:
  assumes "0 < x" and "2 powr of_int m \<le> x" and "exponent_of x \<le> m"
  shows "2 powr of_int m \<le> nearest x"
proof -
  define e where "e = exponent_of x"
  define p where "p = 2 powr real_of_int e"
  have p: "0 < p" unfolding p_def by simp
  have q: "2 powr real_of_int m = 2 powr real_of_int (m - e) * p"
    unfolding p_def by (simp add: powr_add [symmetric])
  have i: "2 powr real_of_int (m - e) = real_of_int (2 ^ nat (m - e))"
    using assms(3) unfolding e_def by (intro two_powr_int) simp
  have "2 powr real_of_int m / p \<le> x / p"
    using assms(2) p by (simp add: divide_right_mono)
  moreover have "2 powr real_of_int m / p = real_of_int (2 ^ nat (m - e))"
    unfolding q i using p by simp
  ultimately have "real_of_int (2 ^ nat (m - e)) \<le> x / p"
    by simp
  then have "round_even (real_of_int (2 ^ nat (m - e))) \<le> round_even (x / p)"
    by (rule round_even_mono)
  then have "2 ^ nat (m - e) \<le> round_even (x / p)"
    by (simp only: round_even_int)
  then have "real_of_int (2 ^ nat (m - e)) \<le> real_of_int (round_even (x / p))"
    by (simp only: of_int_le_iff)
  then have "real_of_int (2 ^ nat (m - e)) * p \<le> real_of_int (round_even (x / p)) * p"
    using p by (simp only: mult_le_cancel_right_pos)
  then show ?thesis
    unfolding nearest_pos [OF assms(1)] q i e_def [symmetric] p_def [symmetric] .
qed

lemma binade:
  assumes "0 < x"
  shows "2 powr of_int \<lfloor>log 2 x\<rfloor> \<le> x" and "x < 2 powr (of_int \<lfloor>log 2 x\<rfloor> + 1)"
proof -
  define k where "k = \<lfloor>log 2 x\<rfloor>"
  have "of_int k \<le> log 2 x" unfolding k_def by simp
  then have "2 powr of_int k \<le> x"
    using assms by (simp add: powr_le_iff)
  then show "2 powr of_int \<lfloor>log 2 x\<rfloor> \<le> x"
    unfolding k_def .
  have "log 2 x < of_int k + 1" unfolding k_def by linarith
  then have "x < 2 powr (of_int k + 1)"
    using assms by (simp add: log_less_iff)
  then show "x < 2 powr (of_int \<lfloor>log 2 x\<rfloor> + 1)"
    unfolding k_def .
qed

lemma nearest_mono_pos:
  assumes "0 < x" and "x \<le> y"
  shows "nearest x \<le> nearest y"
proof -
  have y: "0 < y" using assms by linarith
  define kx where "kx = \<lfloor>log 2 x\<rfloor>"
  define ky where "ky = \<lfloor>log 2 y\<rfloor>"
  have ex: "exponent_of x = max (kx - 52) (- 1074)"
    using assms(1) by (simp add: exponent_of_def kx_def)
  have ey: "exponent_of y = max (ky - 52) (- 1074)"
    using y by (simp add: exponent_of_def ky_def)
  have "log 2 x \<le> log 2 y"
    using assms y by simp
  then have k: "kx \<le> ky"
    unfolding kx_def ky_def by (rule floor_mono)
  show ?thesis
  proof (cases "exponent_of x = exponent_of y")
    case True
    define p where "p = 2 powr real_of_int (exponent_of y)"
    have p: "0 < p" unfolding p_def by simp
    have "x / p \<le> y / p"
      using assms(2) p by (simp add: divide_right_mono)
    then have "round_even (x / p) \<le> round_even (y / p)"
      by (rule round_even_mono)
    then have "real_of_int (round_even (x / p)) * p \<le> real_of_int (round_even (y / p)) * p"
      using p by simp
    then show ?thesis
      unfolding nearest_pos [OF assms(1)] nearest_pos [OF y] True p_def [symmetric] .
  next
    case False
    then have lt: "kx < ky" and ny: "exponent_of y = ky - 52"
      using k ex ey by (auto simp: max_def split: if_splits)
    have "x < 2 powr (real_of_int kx + 1)"
      unfolding kx_def using assms(1) by (rule binade(2))
    also have "real_of_int kx + 1 = real_of_int (kx + 1)" by simp
    also have "2 powr real_of_int (kx + 1) \<le> 2 powr real_of_int ky"
      using lt by (intro powr_mono) simp_all
    finally have xu: "x \<le> 2 powr real_of_int ky" by simp
    have "exponent_of x \<le> ky"
      using lt ex ny ey by (auto simp: max_def split: if_splits)
    from nearest_upper [OF assms(1) xu this] have a: "nearest x \<le> 2 powr real_of_int ky" .
    have yl: "2 powr real_of_int ky \<le> y"
      unfolding ky_def using y by (rule binade(1))
    have "exponent_of y \<le> ky" using ny by simp
    from nearest_lower [OF y yl this] a show ?thesis by linarith
  qed
qed

lemma nearest_mono:
  assumes "x \<le> y"
  shows "nearest x \<le> nearest y"
proof -
  consider "0 < x" | "x \<le> 0" "0 \<le> y" | "y < 0" by linarith
  then show ?thesis
  proof cases
    case 1
    then show ?thesis using assms by (rule nearest_mono_pos)
  next
    case 2
    then have "0 \<le> nearest (- x)" "0 \<le> nearest y"
      by (simp_all add: nearest_nonneg)
    then show ?thesis by (simp add: nearest_neg)
  next
    case 3
    then have "0 < - y" "- y \<le> - x" using assms by simp_all
    then have "nearest (- y) \<le> nearest (- x)" by (rule nearest_mono_pos)
    then show ?thesis by (simp add: nearest_neg)
  qed
qed

lemma nearest_nonpos: "x \<le> 0 \<Longrightarrow> nearest x \<le> 0"
  using nearest_nonneg [of "- x"] by (simp add: nearest_neg)

lemma binary64_mono:
  assumes "x \<le> y"
  shows "binary64 x \<le> binary64 y"
proof -
  note m = nearest_mono [OF assms]
  show ?thesis
  proof (cases "2 ^ 1024 \<le> \<bar>nearest x\<bar>")
    case A: True
    show ?thesis
    proof (cases "0 < x")
      case True
      then have "0 \<le> nearest x" by (simp add: nearest_nonneg)
      then have "2 ^ 1024 \<le> nearest x" using A by linarith
      then have "2 ^ 1024 \<le> \<bar>nearest y\<bar>" using m by linarith
      moreover have "0 < y" using True assms by linarith
      ultimately show ?thesis
        using A True by (simp add: binary64_nearest)
    next
      case False
      then show ?thesis using A by (simp add: binary64_nearest)
    qed
  next
    case A: False
    show ?thesis
    proof (cases "2 ^ 1024 \<le> \<bar>nearest y\<bar>")
      case B: True
      show ?thesis
      proof (cases "0 < y")
        case True
        then show ?thesis using A B by (simp add: binary64_nearest)
      next
        case False
        then have "nearest y \<le> 0" by (simp add: nearest_nonpos)
        then have "nearest y \<le> - (2 ^ 1024)" using B by linarith
        then have "2 ^ 1024 \<le> \<bar>nearest x\<bar>" using m by linarith
        with A show ?thesis by simp
      qed
    next
      case False
      then show ?thesis using A m by (simp add: binary64_nearest)
    qed
  qed
qed

lemma double_fpu_monotone: "monotone_arith double_fpu"
proof -
  have c: "a \<le> b" if "x \<le> y" "binary64 x = Finite a" "binary64 y = Finite b" for x y a b
    using binary64_mono [OF that(1)] that(2,3) by simp
  have m: "mul_with binary64 a (Finite c) \<le> mul_with binary64 b (Finite c)"
    if "a \<le> b" "0 < c" for a b c
  proof (cases a)
    case (Finite u)
    show ?thesis
    proof (cases b)
      case (Finite v)
      then have "u * c \<le> v * c" using that \<open>a = Finite u\<close> by simp
      then show ?thesis
        using Finite \<open>a = Finite u\<close> by (simp add: binary64_mono)
    next
      case Infinite
      then show ?thesis using that(2) by (cases "mul_with binary64 a (Finite c)") simp_all
    next
      case NegInfinite
      then show ?thesis using that(1) Finite by simp
    qed
  next
    case Infinite
    then have "b = Infinite" using that(1) by (cases b) simp_all
    then show ?thesis using Infinite by simp
  next
    case NegInfinite
    then show ?thesis using that(2) by simp
  qed
  show ?thesis
    unfolding monotone_arith_def
    by (auto simp: arith_defs divide_right_mono binary64_mono m c split: pyfloat.splits)
qed

section \<open>Credential and empty-query checks\<close>

text \<open>
  Claim C6. If the credential is absent, or does not start with the prefix \<^verbatim>\<open>MLY|\<close>,
  \<open>mapillary_find_best\<close> returns \<open>Empty\<close> and performs no network call (its list of
  effects is empty), whatever the origin, the radii and the panorama flag.
\<close>

theorem bad_token_no_network:
  "token = None \<or> (\<exists>t. token = Some t \<and> \<not> startswith t ''MLY|'')
   \<Longrightarrow> mapillary_find_best w lat0 lon0 token radii_m require_pano = (Inr Empty, [])"
  by (auto simp: mapillary_find_best_def split: option.splits)

theorem bad_token_no_network_witness:
  "\<not> startswith ''secret'' ''MLY|''
   \<and> mapillary_find_best dead_world (Finite 48) (Finite 2) (Some ''secret'') default_radii True
       = (Inr Empty, [])
   \<and> mapillary_find_best dead_world (Finite 48) (Finite 2) None default_radii False
       = (Inr Empty, [])"
proof -
  have h: "\<not> startswith ''secret'' ''MLY|''"
    by (simp add: startswith_def)
  show ?thesis
    using h
      bad_token_no_network [of "Some ''secret''" dead_world "Finite 48" "Finite 2" default_radii True]
      bad_token_no_network [of None dead_world "Finite 48" "Finite 2" default_radii False]
    by simp
qed

text \<open>
  Claim C10. \<open>geocode_nominatim\<close> called with the empty string returns \<^verbatim>\<open>None\<close> at once:
  no request, no sleep, for every retry count and delay.
\<close>

theorem geocode_empty_address:
  "geocode_nominatim w [] retries delay = (Inr None, [])"
  by (simp add: geocode_nominatim_def)

theorem geocode_empty_address_witness:
  "geocode_nominatim dead_world [] 3 0.8 = (Inr None, [])"
  using geocode_empty_address [of dead_world 3 "0.8"] by simp

section \<open>Degree offsets\<close>

text \<open>The exact arithmetic does not reverse an order, and in it the offsets are the
  quotient of the meters by 111320 and its product with the cosine of the latitude.\<close>

lemma exact_fpu_monotone: "monotone_arith exact_fpu"
proof -
  have m: "mul_with Finite a (Finite c) \<le> mul_with Finite b (Finite c)"
    if "a \<le> b" "0 < c" for a b c
    using that by (cases a; cases b) simp_all
  show ?thesis
    unfolding monotone_arith_def
    by (auto simp: arith_defs divide_right_mono m split: pyfloat.splits)
qed

lemma deg_for_meters_exact:
  "deg_for_meters exact_fpu (Finite la) m
     = Inr (Finite (m / 111320), Finite (m / 111320 * cos (la * (pi / 180))))"
  by (simp add: deg_for_meters_def arith_defs Let_def)

lemma deg_for_meters_mono:
  assumes "monotone_arith fp" and "m1 \<le> m2"
    and "f_cos fp (f_radians fp la) = Inr (Finite c)" and "0 < c"
    and "deg_for_meters fp la m1 = Inr (a1, b1)" and "deg_for_meters fp la m2 = Inr (a2, b2)"
  shows "a1 \<le> a2 \<and> b1 \<le> b2"
proof -
  from assms(5) obtain x1 where x1: "to_float fp m1 = Inr x1"
    and a1: "a1 = f_div fp (Finite x1) (Finite 111320)"
    and b1: "b1 = f_mul fp a1 (Finite c)"
    using assms(3) by (auto simp: deg_for_meters_def Let_def split: sum.splits)
  from assms(6) obtain x2 where x2: "to_float fp m2 = Inr x2"
    and a2: "a2 = f_div fp (Finite x2) (Finite 111320)"
    and b2: "b2 = f_mul fp a2 (Finite c)"
    using assms(3) by (auto simp: deg_for_meters_def Let_def split: sum.splits)
  have "x1 \<le> x2"
    using assms(1,2) x1 x2 unfolding monotone_arith_def by blast
  then have a: "a1 \<le> a2"
    using assms(1) a1 a2 unfolding monotone_arith_def by blast
  then have "b1 \<le> b2"
    using assms(1,4) b1 b2 unfolding monotone_arith_def by blast
  with a show ?thesis by simp
qed

text \<open>The offsets of 0 meters at latitude 0, and the cosine computed there, in the
  arithmetic of doubles.\<close>

lemma offsets_0: "deg_for_meters double_fpu (Finite 0) 0 = Inr (Finite 0, Finite 0)"
  by (simp add: deg_for_meters_def arith_defs binary64_0 binary64_1 Let_def)

lemma cosine_0: "f_cos double_fpu (f_radians double_fpu (Finite 0)) = Inr (Finite 1)"
  by (simp add: arith_defs binary64_0 binary64_1)

text \<open>
  Claim C9, as amended. For every fixed latitude at which the computed cosine is a
  positive float, and in every arithmetic that does not reverse an order, both components
  of \<open>deg_for_meters\<close> are non-decreasing functions of the meters: more meters never give
  a smaller offset. The arithmetic of doubles and the exact arithmetic are two such
  arithmetics. In the exact arithmetic the latitude offset is the meters divided by
  111320 and the longitude offset is that quotient times the cosine of the latitude.
\<close>

theorem deg_for_meters_monotone:
  "(monotone_arith fp \<and> m1 \<le> m2
      \<and> f_cos fp (f_radians fp la) = Inr (Finite c) \<and> 0 < c
      \<and> deg_for_meters fp la m1 = Inr (a1, b1) \<and> deg_for_meters fp la m2 = Inr (a2, b2)
     \<longrightarrow> a1 \<le> a2 \<and> b1 \<le> b2)
   \<and> monotone_arith double_fpu
   \<and> monotone_arith exact_fpu
   \<and> deg_for_meters exact_fpu (Finite x) m
       = Inr (Finite (m / 111320), Finite (m / 111320 * cos (x * (pi / 180))))"
proof (intro conjI impI)
  assume "monotone_arith fp \<and> m1 \<le> m2
      \<and> f_cos fp (f_radians fp la) = Inr (Finite c) \<and> 0 < c
      \<and> deg_for_meters fp la m1 = Inr (a1, b1) \<and> deg_for_meters fp la m2 = Inr (a2, b2)"
  then have "a1 \<le> a2 \<and> b1 \<le> b2"
    using deg_for_meters_mono [of fp m1 m2 la c a1 b1 a2 b2] by blast
  then show "a1 \<le> a2" "b1 \<le> b2" by simp_all
qed (rule double_fpu_monotone exact_fpu_monotone deg_for_meters_exact)+

theorem deg_for_meters_monotone_witness:
  "0 \<le> meters_lo
   \<and> f_cos double_fpu (f_radians double_fpu (Finite 0)) = Inr (Finite 1) \<and> (0::real) < 1
   \<and> deg_for_meters double_fpu (Finite 0) 0 = Inr (Finite 0, Finite 0)
   \<and> deg_for_meters double_fpu (Finite 0) meters_lo = Inr (Finite offset_q, Finite offset_q)
   \<and> Finite 0 \<le> Finite offset_q"
proof -
  have m: "0 \<le> meters_lo" by (simp add: meters_lo_def)
  have p: "(0::real) < 1" by simp
  have h: "monotone_arith double_fpu \<and> 0 \<le> meters_lo
      \<and> f_cos double_fpu (f_radians double_fpu (Finite 0)) = Inr (Finite 1) \<and> (0::real) < 1
      \<and> deg_for_meters double_fpu (Finite 0) 0 = Inr (Finite 0, Finite 0)
      \<and> deg_for_meters double_fpu (Finite 0) meters_lo = Inr (Finite offset_q, Finite offset_q)"
    by (intro conjI) (rule double_fpu_monotone m cosine_0 p offsets_0 offsets_1)+
  note T = deg_for_meters_monotone [of double_fpu 0 meters_lo "Finite 0" 1 "Finite 0" "Finite 0"
      "Finite offset_q" "Finite offset_q", THEN conjunct1, THEN mp, OF h]
  show ?thesis
    by (intro conjI) (rule m cosine_0 p offsets_0 offsets_1 T [THEN conjunct1])+
qed

text \<open>
  The claim as stated fails in the arithmetic of doubles: 120000 plus one unit in the
  last place and 120000 plus two units are two different doubles, and at latitude 0 both
  give the same latitude offset and the same longitude offset, the quotient being
  rounded to the same double.
\<close>

theorem deg_for_meters_strict_counterexample:
  "meters_lo < meters_hi
   \<and> deg_for_meters double_fpu (Finite 0) meters_lo = Inr (Finite offset_q, Finite offset_q)
   \<and> deg_for_meters double_fpu (Finite 0) meters_hi = Inr (Finite offset_q, Finite offset_q)"
proof -
  have "meters_lo < meters_hi" by (simp add: meters_lo_def meters_hi_def)
  then show ?thesis
    by (intro conjI) (rule offsets_1 offsets_2 | assumption)+
qed

section \<open>The retry loop of the geocoder\<close>

text \<open>
  The loop over the indices \<open>i, ..., n - 1\<close>, where \<open>n\<close> is the retry count: \<open>k\<close> attempts
  that raise followed by one that returns give that value after \<open>k\<close> sleeps; attempts that
  all raise give \<^verbatim>\<open>None\<close> at the last index.
\<close>

lemma geocode_loop_success:
  assumes "0 \<le> delay" "delay \<le> sleep_max w" "int n = retries"
  shows "i + k < n \<Longrightarrow>
     (\<forall>j<k. \<exists>e. geocode_try w address (http w (i + j) (Search address)) = Inl e) \<Longrightarrow>
     geocode_try w address (http w (i + k) (Search address)) = Inr res \<Longrightarrow>
     geocode_loop w address retries delay [i ..< n] = (Inr res, attempts address delay k)"
proof (induction k arbitrary: i)
  case 0
  then show ?case
    by (simp add: upt_conv_Cons attempts_def)
next
  case (Suc k)
  from Suc.prems(2) obtain e where e: "geocode_try w address (http w i (Search address)) = Inl e"
    by force
  have rest: "geocode_loop w address retries delay [Suc i ..< n] = (Inr res, attempts address delay k)"
  proof (rule Suc.IH)
    show "Suc i + k < n" using Suc.prems(1) by simp
    show "\<forall>j<k. \<exists>e. geocode_try w address (http w (Suc i + j) (Search address)) = Inl e"
      using Suc.prems(2) by (metis Suc_less_eq add_Suc_shift)
    show "geocode_try w address (http w (Suc i + k) (Search address)) = Inr res"
      using Suc.prems(3) by simp
  qed
  have notlast: "int i \<noteq> retries - 1"
    using Suc.prems(1) assms(3) by linarith
  have "i < n" using Suc.prems(1) by simp
  then show ?case
    using e rest notlast assms(1,2)
    by (simp add: upt_conv_Cons py_sleep_def attempts_def)
qed

lemma geocode_loop_all_fail:
  assumes "0 \<le> delay" "delay \<le> sleep_max w" "int n = retries"
  shows "i + k + 1 = n \<Longrightarrow>
     (\<forall>j\<le>k. \<exists>e. geocode_try w address (http w (i + j) (Search address)) = Inl e) \<Longrightarrow>
     geocode_loop w address retries delay [i ..< n] = (Inr None, attempts address delay k)"
proof (induction k arbitrary: i)
  case 0
  then obtain e where e: "geocode_try w address (http w i (Search address)) = Inl e"
    by force
  have "[i ..< n] = [i]" using "0.prems"(1) by (simp add: upt_conv_Cons)
  moreover have "int i = retries - 1" using "0.prems"(1) assms(3) by linarith
  ultimately show ?case using e by (simp add: attempts_def)
next
  case (Suc k)
  from Suc.prems(2) obtain e where e: "geocode_try w address (http w i (Search address)) = Inl e"
    by force
  have rest: "geocode_loop w address retries delay [Suc i ..< n] = (Inr None, attempts address delay k)"
  proof (rule Suc.IH)
    show "Suc i + k + 1 = n" using Suc.prems(1) by simp
    show "\<forall>j\<le>k. \<exists>e. geocode_try w address (http w (Suc i + j) (Search address)) = Inl e"
      using Suc.prems(2) by (metis Suc_le_mono add_Suc_shift)
  qed
  have notlast: "int i \<noteq> retries - 1"
    using Suc.prems(1) assms(3) by linarith
  have "i < n" using Suc.prems(1) by simp
  then show ?case
    using e rest notlast assms(1,2)
    by (simp add: upt_conv_Cons py_sleep_def attempts_def)
qed

lemma geocode_loop_requests:
  "length (requests_of (snd (geocode_loop w address retries delay is))) \<le> length is"
  by (induction "is") (auto split: sum.splits prod.splits)

lemma geocode_retry_parts:
  assumes "address \<noteq> []" and "0 \<le> delay" and "delay \<le> sleep_max w"
  shows "int k < retries \<Longrightarrow>
         (\<forall>j<k. \<exists>e. geocode_try w address (http w j (Search address)) = Inl e) \<Longrightarrow>
         geocode_try w address (http w k (Search address)) = Inr res \<Longrightarrow>
         geocode_nominatim w address retries delay = (Inr res, attempts address delay k)"
    and "0 < retries \<Longrightarrow>
         (\<forall>j. int j < retries \<longrightarrow> (\<exists>e. geocode_try w address (http w j (Search address)) = Inl e)) \<Longrightarrow>
         geocode_nominatim w address retries delay
           = (Inr None, attempts address delay (nat retries - 1))"
proof -
  assume k: "int k < retries"
    and f: "\<forall>j<k. \<exists>e. geocode_try w address (http w j (Search address)) = Inl e"
    and r: "geocode_try w address (http w k (Search address)) = Inr res"
  have "geocode_loop w address retries delay [0 ..< nat retries] = (Inr res, attempts address delay k)"
    using geocode_loop_success [of delay w "nat retries" retries 0 k address res] assms(2,3) k f r
    by simp
  then show "geocode_nominatim w address retries delay = (Inr res, attempts address delay k)"
    using assms(1) by (simp add: geocode_nominatim_def)
next
  assume p: "0 < retries"
    and f: "\<forall>j. int j < retries \<longrightarrow> (\<exists>e. geocode_try w address (http w j (Search address)) = Inl e)"
  have "geocode_loop w address retries delay [0 ..< nat retries]
          = (Inr None, attempts address delay (nat retries - 1))"
    using geocode_loop_all_fail [of delay w "nat retries" retries 0 "nat retries - 1" address]
      assms(2,3) p f
    by simp
  then show "geocode_nominatim w address retries delay
               = (Inr None, attempts address delay (nat retries - 1))"
    using assms(1) by (simp add: geocode_nominatim_def)
qed

text \<open>An attempt that returns at the first index ends the call after its single request,
  whatever the delay.\<close>

lemma geocode_first_returns:
  assumes "address \<noteq> []" and "0 < retries"
    and "geocode_try w address (http w 0 (Search address)) = Inr res"
  shows "geocode_nominatim w address retries delay = (Inr res, [Get (Search address)])"
proof -
  have "[0 ..< nat retries] = 0 # [1 ..< nat retries]"
    using assms(2) by (simp add: upt_conv_Cons)
  then show ?thesis
    using assms(1,3) by (simp add: geocode_nominatim_def)
qed

text \<open>
  Claim C4. For a non-empty address and a non-negative delay, \<open>geocode_nominatim\<close>
  issues at most \<open>retries\<close> requests; when the first \<open>k\<close> attempts raise (transport or
  parsing failure) and attempt \<open>k\<close>, still within the retry count, returns, the call returns
  that value after \<open>k\<close> sleeps of \<open>delay\<close> each, one between two attempts; when all
  \<open>retries\<close> attempts raise, the call returns \<^verbatim>\<open>None\<close> after \<open>retries\<close> requests and
  \<open>retries - 1\<close> sleeps, the failure of the last attempt being answered by \<^verbatim>\<open>None\<close>
  and not by a sleep or an exception; a failed request is an exception of the attempt; and
  a well-formed body with zero matches (the empty list) on the first attempt gives \<^verbatim>\<open>None\<close>
  after that single request, with no sleep and no retry. The two statements in which the
  call sleeps are for a delay that is not beyond the longest sleep \<^verbatim>\<open>time.sleep\<close> accepts.
  The defaults are 3 retries and a delay of 0.8 seconds.
\<close>

theorem geocode_retry_policy:
  assumes "address \<noteq> []" and "0 \<le> delay"
  shows "length (requests_of (snd (geocode_nominatim w address retries delay))) \<le> nat retries
    \<and> (\<forall>k res. delay \<le> sleep_max w \<and> int k < retries
          \<and> (\<forall>j<k. \<exists>e. geocode_try w address (http w j (Search address)) = Inl e)
          \<and> geocode_try w address (http w k (Search address)) = Inr res
         \<longrightarrow> geocode_nominatim w address retries delay = (Inr res, attempts address delay k))
    \<and> (delay \<le> sleep_max w \<and> 0 < retries
          \<and> (\<forall>j. int j < retries \<longrightarrow> (\<exists>e. geocode_try w address (http w j (Search address)) = Inl e))
         \<longrightarrow> geocode_nominatim w address retries delay
               = (Inr None, attempts address delay (nat retries - 1)))
    \<and> (\<forall>e. geocode_try w address (Failed e) = Inl e)
    \<and> (0 < retries \<and> http w 0 (Search address) = Body (JArr [])
         \<longrightarrow> geocode_nominatim w address retries delay = (Inr None, [Get (Search address)]))"
proof (intro conjI allI impI)
  show "length (requests_of (snd (geocode_nominatim w address retries delay))) \<le> nat retries"
    using geocode_loop_requests [of w address retries delay "[0 ..< nat retries]"] assms(1)
    by (simp add: geocode_nominatim_def)
next
  fix k res
  assume a: "delay \<le> sleep_max w \<and> int k < retries
    \<and> (\<forall>j<k. \<exists>e. geocode_try w address (http w j (Search address)) = Inl e)
    \<and> geocode_try w address (http w k (Search address)) = Inr res"
  then have s: "delay \<le> sleep_max w" by simp
  from a show "geocode_nominatim w address retries delay = (Inr res, attempts address delay k)"
    using geocode_retry_parts(1) [OF assms s] by blast
next
  assume a: "delay \<le> sleep_max w \<and> 0 < retries
    \<and> (\<forall>j. int j < retries \<longrightarrow> (\<exists>e. geocode_try w address (http w j (Search address)) = Inl e))"
  then have s: "delay \<le> sleep_max w" by simp
  from a show "geocode_nominatim w address retries delay
               = (Inr None, attempts address delay (nat retries - 1))"
    using geocode_retry_parts(2) [OF assms s] by blast
next
  fix e
  show "geocode_try w address (Failed e) = Inl e"
    by (simp add: geocode_try_def)
next
  assume a: "0 < retries \<and> http w 0 (Search address) = Body (JArr [])"
  then have "geocode_try w address (http w 0 (Search address)) = Inr None"
    by (simp add: geocode_try_def)
  with a show "geocode_nominatim w address retries delay = (Inr None, [Get (Search address)])"
    using geocode_first_returns [OF assms(1)] by blast
qed

theorem geocode_retry_policy_witness:
  "''Paris'' \<noteq> [] \<and> 0 \<le> default_delay
   \<and> default_delay \<le> sleep_max dead_world
   \<and> geocode_nominatim dead_world ''Paris'' default_retries default_delay
       = (Inr None, [Get (Search ''Paris''), Sleep default_delay,
                     Get (Search ''Paris''), Sleep default_delay, Get (Search ''Paris'')])
   \<and> geocode_nominatim empty_world ''Paris'' default_retries default_delay
       = (Inr None, [Get (Search ''Paris'')])"
proof -
  have a: "''Paris'' \<noteq> []" by simp
  have d: "0 \<le> default_delay" by (simp add: default_delay_def)
  have s1: "default_delay \<le> sleep_max dead_world"
    by (simp add: default_delay_def dead_world_def plain_world_def)
  have dead: "\<forall>j. int j < default_retries \<longrightarrow>
      (\<exists>e. geocode_try dead_world ''Paris'' (http dead_world j (Search ''Paris'')) = Inl e)"
    by (simp add: geocode_try_def dead_world_def plain_world_def)
  have emp: "http empty_world 0 (Search ''Paris'') = Body (JArr [])"
    by (simp add: empty_world_def plain_world_def)
  have n: "attempts ''Paris'' default_delay (nat default_retries - 1)
      = [Get (Search ''Paris''), Sleep default_delay,
         Get (Search ''Paris''), Sleep default_delay, Get (Search ''Paris'')]"
    by (simp add: attempts_def default_retries_def eval_nat_numeral)
  have p: "0 < default_retries" by (simp add: default_retries_def)
  have h1: "default_delay \<le> sleep_max dead_world \<and> 0 < default_retries
     \<and> (\<forall>j. int j < default_retries \<longrightarrow>
          (\<exists>e. geocode_try dead_world ''Paris'' (http dead_world j (Search ''Paris'')) = Inl e))"
    using s1 p dead by blast
  have h2: "0 < default_retries \<and> http empty_world 0 (Search ''Paris'') = Body (JArr [])"
    using p emp by blast
  have r1: "geocode_nominatim dead_world ''Paris'' default_retries default_delay
       = (Inr None, [Get (Search ''Paris''), Sleep default_delay,
                     Get (Search ''Paris''), Sleep default_delay, Get (Search ''Paris'')])"
    using geocode_retry_policy [OF a d, of dead_world default_retries, THEN conjunct2,
        THEN conjunct2, THEN conjunct1, THEN mp, OF h1]
    unfolding n .
  have r2: "geocode_nominatim empty_world ''Paris'' default_retries default_delay
       = (Inr None, [Get (Search ''Paris'')])"
    by (rule geocode_retry_policy [OF a d, of empty_world default_retries, THEN conjunct2,
        THEN conjunct2, THEN conjunct2, THEN conjunct2, THEN mp, OF h2])
  show ?thesis
    by (intro conjI) (rule a d s1 r1 r2)+
qed

section \<open>The distance in the exact arithmetic\<close>










section \<open>The ranking\<close>

text \<open>
  \<open>rank_items\<close> keeps every item in its entry, computes each entry from its item alone,
  and sorts with the key of line 78: the result is ordered by \<open>ranks_before\<close>, is a
  rearrangement of the entries, and keeps entries of equal flag and distance in the order
  of the input.
\<close>

lemma rank_entry_item: "rank_entry fp la lo it = Inr t \<Longrightarrow> snd (snd t) = it"
  by (auto simp: rank_entry_def split: sum.splits)


lemma rank_entries_items:
  "rank_entries fp la lo its = Inr ts \<Longrightarrow> map (\<lambda>t. snd (snd t)) ts = its"
  by (induction its arbitrary: ts) (auto split: sum.splits dest: rank_entry_item)

lemma rank_entries_each:
  "rank_entries fp la lo its = Inr ts
   \<Longrightarrow> list_all2 (\<lambda>it t. rank_entry fp la lo it = Inr t) its ts"
  by (induction its arbitrary: ts) (auto split: sum.splits)

lemma rank_key_le: "rank_key a \<le> rank_key b \<longleftrightarrow> ranks_before a b"
  by (cases "fst a"; cases "fst b") (auto simp: rank_key_def ranks_before_def)


lemma sort_ranked_sorted: "sorted_wrt ranks_before (sort_ranked ts)"
proof -
  have "sorted (map rank_key (sort_key rank_key ts))"
    by (rule sorted_sort_key)
  then show ?thesis
    by (simp add: sort_ranked_def sorted_wrt_map rank_key_le)
qed

lemma sort_ranked_mset: "mset (sort_ranked ts) = mset ts"
  by (simp add: sort_ranked_def)





lemma distance_same_point_double:
  "haversine_m double_fpu (Finite 0) (Finite 0) (JNum 0) (JNum 0) = Inr (Finite 0)"
  by (simp add: haversine_m_def arith_defs binary64_0 binary64_1 binary64_12742000 Let_def)


lemma rank_items_unfold:
  assumes "rank_items fp la lo items = Inr ranked"
  shows "\<exists>its ts. py_iter items = Inr its \<and> rank_entries fp la lo its = Inr ts
           \<and> ranked = sort_ranked ts"
  using assms by (auto simp: rank_items_def split: sum.splits)

lemma rank_entries_member:
  "rank_entries fp la lo its = Inr ts \<Longrightarrow> t \<in> set ts
   \<Longrightarrow> rank_entry fp la lo (snd (snd t)) = Inr t"
proof (induction its arbitrary: ts)
  case Nil
  then show ?case by simp
next
  case (Cons it its)
  from Cons.prems(1) obtain t0 ts0 where t0: "rank_entry fp la lo it = Inr t0"
    and ts0: "rank_entries fp la lo its = Inr ts0" and ts: "ts = t0 # ts0"
    by (auto split: sum.splits)
  show ?case
  proof (cases "t = t0")
    case True
    then show ?thesis using t0 rank_entry_item [OF t0] by simp
  next
    case False
    then have "t \<in> set ts0" using Cons.prems(2) ts by simp
    then show ?thesis using Cons.IH [OF ts0] by simp
  qed
qed

lemma rank_items_entries:
  assumes "rank_items fp la lo items = Inr ranked" and "t \<in> set ranked"
  shows "rank_entry fp la lo (snd (snd t)) = Inr t"
proof -
  from rank_items_unfold [OF assms(1)] obtain its ts
    where ts: "rank_entries fp la lo its = Inr ts" and ranked: "ranked = sort_ranked ts"
    by blast
  have "t \<in> set ts"
    using assms(2) sort_ranked_mset [of ts] ranked by (metis set_mset_mset)
  then show ?thesis
    using ts by (rule rank_entries_member [rotated])
qed



section \<open>The resolver\<close>

text \<open>What an outcome is made of, and where the candidate of an entry comes from.\<close>

lemma outcome_of_result:
  "outcome_of it = Inr (url, it') \<Longrightarrow>
     it' = it \<and> (\<exists>kvs. it = JObj kvs)
     \<and> url = py_or (field it ''thumb_1024_url'') (field it ''thumb_2048_url'')"
  by (cases it) (auto simp: outcome_of_def field_def py_or_def split: if_splits)

lemma outcome_of_object:
  "outcome_of (JObj kvs)
     = Inr (py_or (field (JObj kvs) ''thumb_1024_url'') (field (JObj kvs) ''thumb_2048_url''), JObj kvs)"
  by (simp add: outcome_of_def field_def py_or_def)

lemma rank_entry_object: "rank_entry fp la lo it = Inr t \<Longrightarrow> \<exists>kvs. it = JObj kvs"
  by (cases it) (auto simp: rank_entry_def coordinates_of_def)

lemma rank_entry_flag:
  "rank_entry fp la lo it = Inr t \<Longrightarrow> fst t = truthy (field it ''is_pano'')"
  by (auto simp: rank_entry_def field_def split: sum.splits)

lemma rank_items_nonempty:
  assumes "rank_items fp la lo items = Inr ranked" and "truthy items"
  shows "ranked \<noteq> []"
proof -
  from assms(1) obtain its ts where its: "py_iter items = Inr its"
    and ts: "rank_entries fp la lo its = Inr ts" and ranked: "ranked = sort_ranked ts"
    by (auto simp: rank_items_def split: sum.splits)
  have "its \<noteq> []"
    using its assms(2) by (cases items) auto
  then have "ts \<noteq> []"
    using rank_entries_items [OF ts] by auto
  then show ?thesis
    using sort_ranked_mset [of ts] ranked by (metis mset_zero_iff)
qed

lemma rank_items_falsy:
  assumes "rank_items fp la lo items = Inr ranked" and "\<not> truthy items"
  shows "ranked = []"
proof -
  from assms(1) obtain its ts where its: "py_iter items = Inr its"
    and ts: "rank_entries fp la lo its = Inr ts" and ranked: "ranked = sort_ranked ts"
    by (auto simp: rank_items_def split: sum.splits)
  have "its = []"
    using its assms(2) by (cases items) auto
  then show ?thesis
    using ts ranked by (simp add: sort_ranked_def)
qed

lemma rank_items_outcome:
  assumes "rank_items fp la lo items = Inr ranked" and "t \<in> set ranked"
  shows "outcome_of (snd (snd t))
     = Inr (py_or (field (snd (snd t)) ''thumb_1024_url'')
                  (field (snd (snd t)) ''thumb_2048_url''), snd (snd t))"
proof -
  from rank_items_entries [OF assms] have "rank_entry fp la lo (snd (snd t)) = Inr t" .
  from rank_entry_object [OF this] obtain kvs where "snd (snd t) = JObj kvs" by blast
  then show ?thesis by (simp add: outcome_of_object)
qed

lemma find_filter: "find P xs = (case filter P xs of [] \<Rightarrow> None | x # ys \<Rightarrow> Some x)"
  by (induction xs) auto

text \<open>The block of the source returns exactly the qualifying outcome of the answer.\<close>

lemma find_try_qualifying:
  "find_try fp la lo rp resp = Inr (Some out) \<longleftrightarrow> qualifying fp la lo rp resp = Some out"
proof (cases resp)
  case (Failed e)
  then show ?thesis by (simp add: find_try_def qualifying_def)
next
  case (Body j)
  show ?thesis
  proof (cases "py_get j ''data'' (JArr [])")
    case (Inl e)
    with Body show ?thesis by (simp add: find_try_def qualifying_def)
  next
    case items: (Inr items)
    show ?thesis
    proof (cases "rank_items fp la lo items")
      case (Inl e)
      with Body items show ?thesis by (simp add: find_try_def qualifying_def)
    next
      case ranked: (Inr ranked)
      show ?thesis
      proof (cases "truthy items")
        case False
        from rank_items_falsy [OF ranked False] have "ranked = []" .
        with Body items ranked False show ?thesis
          by (simp add: find_try_def qualifying_def select_entry_def)
      next
        case True
        from rank_items_nonempty [OF ranked True] obtain t0 ts0 where r: "ranked = t0 # ts0"
          by (cases ranked) auto
        show ?thesis
        proof (cases rp)
          case False
          have "t0 \<in> set ranked" using r by simp
          from rank_items_outcome [OF ranked this] Body items ranked True False r
          show ?thesis
            by (simp add: find_try_def qualifying_def select_entry_def)
        next
          case rp: True
          show ?thesis
          proof (cases "filter fst ranked")
            case Nil
            with Body items ranked True rp show ?thesis
              by (simp add: find_try_def qualifying_def select_entry_def find_filter)
          next
            case (Cons t ts)
            then have "t \<in> set (filter fst ranked)" by simp
            then have "t \<in> set ranked" by simp
            from rank_items_outcome [OF ranked this] Body items ranked True rp Cons
            show ?thesis
              by (simp add: find_try_def qualifying_def select_entry_def find_filter)
          qed
        qed
      qed
    qed
  qed
qed

lemma find_try_none:
  "(\<forall>out. find_try fp la lo rp resp \<noteq> Inr (Some out)) \<longleftrightarrow> qualifying fp la lo rp resp = None"
proof -
  have "(\<forall>out. qualifying fp la lo rp resp \<noteq> Some out) \<longleftrightarrow> qualifying fp la lo rp resp = None"
    by (cases "qualifying fp la lo rp resp") simp_all
  then show ?thesis
    by (simp only: find_try_qualifying)
qed

lemma find_try_some:
  assumes "find_try fp la lo rp resp = Inr (Some (url, it))"
  shows "\<exists>j items ranked. resp = Body j \<and> py_get j ''data'' (JArr []) = Inr items
      \<and> truthy items \<and> rank_items fp la lo items = Inr ranked
      \<and> (if rp then filter fst ranked \<noteq> [] \<and> it = snd (snd (hd (filter fst ranked)))
          else ranked \<noteq> [] \<and> it = snd (snd (hd ranked)))
      \<and> outcome_of it = Inr (url, it)"
proof -
  from assms obtain j where j: "resp = Body j"
    by (cases resp) (auto simp: find_try_def)
  from assms j obtain items where items: "py_get j ''data'' (JArr []) = Inr items"
    by (auto simp: find_try_def split: sum.splits)
  from assms j items have t: "truthy items"
    by (auto simp: find_try_def split: if_splits)
  from assms j items t obtain ranked where r: "rank_items fp la lo items = Inr ranked"
    by (auto simp: find_try_def split: sum.splits)
  show ?thesis
  proof (cases rp)
    case True
    with assms j items t r obtain e es where f: "filter fst ranked = e # es"
      and o: "outcome_of (snd (snd e)) = Inr (url, it)"
      by (auto simp: find_try_def split: list.splits sum.splits)
    from outcome_of_result [OF o] have "it = snd (snd e)" by simp
    with j items t r f o True show ?thesis by auto
  next
    case False
    with assms j items t r obtain e es where f: "ranked = e # es"
      and o: "outcome_of (snd (snd e)) = Inr (url, it)"
      by (auto simp: find_try_def split: list.splits sum.splits)
    from outcome_of_result [OF o] have "it = snd (snd e)" by simp
    with j items t r f o False show ?thesis by auto
  qed
qed

lemma find_try_failed: "find_try fp la lo rp (Failed e) = Inl e"
  by (simp add: find_try_def)

lemma find_try_outcome:
  assumes "find_try fp la lo rp resp = Inr (Some (url, it))"
  shows "(\<exists>kvs. it = JObj kvs)
     \<and> url = py_or (field it ''thumb_1024_url'') (field it ''thumb_2048_url'')
     \<and> (rp \<longrightarrow> truthy (field it ''is_pano''))"
proof -
  from find_try_some [OF assms] obtain j items ranked where
    r: "rank_items fp la lo items = Inr ranked"
    and sel: "if rp then filter fst ranked \<noteq> [] \<and> it = snd (snd (hd (filter fst ranked)))
          else ranked \<noteq> [] \<and> it = snd (snd (hd ranked))"
    and o: "outcome_of it = Inr (url, it)"
    by blast
  have pano: "truthy (field it ''is_pano'')" if rp
  proof -
    from that sel have ne: "filter fst ranked \<noteq> []" and it: "it = snd (snd (hd (filter fst ranked)))"
      by simp_all
    have m: "hd (filter fst ranked) \<in> set (filter fst ranked)"
      using ne by (rule hd_in_set)
    then have "hd (filter fst ranked) \<in> set ranked" and f: "fst (hd (filter fst ranked))"
      by simp_all
    then have "rank_entry fp la lo it = Inr (hd (filter fst ranked))"
      using rank_items_entries [OF r] it by simp
    from rank_entry_flag [OF this] f show ?thesis by simp
  qed
  from outcome_of_result [OF o] pano show ?thesis by blast
qed

text \<open>
  The loop over the radii: a radius whose offsets raise ends the run with that exception,
  a radius whose block returns ends it with the outcome, any other radius adds its query
  to the effects and hands over to the next.
\<close>

lemma cascade_raise:
  "bbox_request (arith w) la lo tok r = Inl e \<Longrightarrow>
   cascade w la lo tok rp n (r # rs) = (Inl e, [])"
  by simp

lemma cascade_hit:
  "bbox_request (arith w) la lo tok r = Inr req \<Longrightarrow>
   find_try (arith w) la lo rp (http w n req) = Inr (Some q) \<Longrightarrow>
   cascade w la lo tok rp n (r # rs) = (Inr q, [Get req])"
  by simp

lemma cascade_skip:
  assumes "bbox_request (arith w) la lo tok r = Inr req"
    and "\<forall>q. find_try (arith w) la lo rp (http w n req) \<noteq> Inr (Some q)"
  shows "cascade w la lo tok rp n (r # rs)
     = (fst (cascade w la lo tok rp (Suc n) rs),
        Get req # snd (cascade w la lo tok rp (Suc n) rs))"
proof (cases "find_try (arith w) la lo rp (http w n req)")
  case (Inl e)
  then show ?thesis using assms(1) by (simp add: case_prod_beta)
next
  case (Inr v)
  with assms(2) have "v = None" by (cases v) auto
  with Inr show ?thesis using assms(1) by (simp add: case_prod_beta)
qed

lemma cascade_stops:
  "list_all2 (\<lambda>r req. bbox_request (arith w) la lo tok r = Inr req) rs reqs \<Longrightarrow>
   k < length rs \<Longrightarrow>
   (\<forall>j<k. \<forall>q. find_try (arith w) la lo rp (http w (n + j) (reqs ! j)) \<noteq> Inr (Some q)) \<Longrightarrow>
   find_try (arith w) la lo rp (http w (n + k) (reqs ! k)) = Inr (Some out) \<Longrightarrow>
   cascade w la lo tok rp n rs = (Inr out, map Get (take (Suc k) reqs))"
proof (induction rs arbitrary: n k reqs)
  case Nil
  then show ?case by simp
next
  case (Cons r rs)
  from Cons.prems(1) obtain req reqs' where reqs: "reqs = req # reqs'"
    and req: "bbox_request (arith w) la lo tok r = Inr req"
    and rest: "list_all2 (\<lambda>r req. bbox_request (arith w) la lo tok r = Inr req) rs reqs'"
    by (auto simp: list_all2_Cons1)
  show ?case
  proof (cases k)
    case 0
    with Cons.prems(4) reqs show ?thesis
      by (simp del: cascade.simps add: cascade_hit [OF req])
  next
    case (Suc k')
    have first: "\<forall>q. find_try (arith w) la lo rp (http w n req) \<noteq> Inr (Some q)"
      using Cons.prems(3) [rule_format, of 0] Suc reqs by simp
    have tail: "cascade w la lo tok rp (Suc n) rs = (Inr out, map Get (take (Suc k') reqs'))"
    proof (rule Cons.IH [OF rest])
      show "k' < length rs" using Cons.prems(2) Suc by simp
      show "\<forall>j<k'. \<forall>q. find_try (arith w) la lo rp (http w (Suc n + j) (reqs' ! j)) \<noteq> Inr (Some q)"
      proof (intro allI impI)
        fix j q assume "j < k'"
        then have "Suc j < k" using Suc by simp
        from Cons.prems(3) [rule_format, OF this, of q] reqs
        show "find_try (arith w) la lo rp (http w (Suc n + j) (reqs' ! j)) \<noteq> Inr (Some q)"
          by simp
      qed
      show "find_try (arith w) la lo rp (http w (Suc n + k') (reqs' ! k')) = Inr (Some out)"
        using Cons.prems(4) Suc reqs by simp
    qed
    from cascade_skip [OF req first, of rs] tail Suc reqs show ?thesis
      by simp
  qed
qed

lemma cascade_exhausted:
  "list_all2 (\<lambda>r req. bbox_request (arith w) la lo tok r = Inr req) rs reqs \<Longrightarrow>
   (\<forall>j<length rs. \<forall>q. find_try (arith w) la lo rp (http w (n + j) (reqs ! j)) \<noteq> Inr (Some q)) \<Longrightarrow>
   cascade w la lo tok rp n rs = (Inr Empty, map Get reqs)"
proof (induction rs arbitrary: n reqs)
  case Nil
  then show ?case by simp
next
  case (Cons r rs)
  from Cons.prems(1) obtain req reqs' where reqs: "reqs = req # reqs'"
    and req: "bbox_request (arith w) la lo tok r = Inr req"
    and rest: "list_all2 (\<lambda>r req. bbox_request (arith w) la lo tok r = Inr req) rs reqs'"
    by (auto simp: list_all2_Cons1)
  have first: "\<forall>q. find_try (arith w) la lo rp (http w n req) \<noteq> Inr (Some q)"
    using Cons.prems(2) [rule_format, of 0] reqs by simp
  have tail: "cascade w la lo tok rp (Suc n) rs = (Inr Empty, map Get reqs')"
  proof (rule Cons.IH [OF rest], intro allI impI)
    fix j q assume "j < length rs"
    then have "Suc j < length (r # rs)" by simp
    from Cons.prems(2) [rule_format, OF this, of q] reqs
    show "find_try (arith w) la lo rp (http w (Suc n + j) (reqs' ! j)) \<noteq> Inr (Some q)" by simp
  qed
  from cascade_skip [OF req first, of rs] tail reqs show ?case
    by simp
qed

text \<open>Every value the loop returns is \<open>Empty\<close> or what the block of one radius returned,
  and the loop returns a value when the offsets of every radius are computed.\<close>

lemma cascade_result:
  "fst (cascade w la lo tok rp n rs) = Inr out \<Longrightarrow>
   out = Empty \<or> (\<exists>resp. find_try (arith w) la lo rp resp = Inr (Some out))"
proof (induction rs arbitrary: n)
  case Nil
  then show ?case by simp
next
  case (Cons r rs)
  show ?case
  proof (cases "bbox_request (arith w) la lo tok r")
    case (Inl e)
    with Cons.prems show ?thesis by simp
  next
    case (Inr req)
    show ?thesis
    proof (cases "\<exists>q. find_try (arith w) la lo rp (http w n req) = Inr (Some q)")
      case True
      then obtain q where q: "find_try (arith w) la lo rp (http w n req) = Inr (Some q)"
        by blast
      from cascade_hit [OF Inr q, of rs] Cons.prems have "out = q" by simp
      with q show ?thesis by blast
    next
      case False
      then have "\<forall>q. find_try (arith w) la lo rp (http w n req) \<noteq> Inr (Some q)" by blast
      from cascade_skip [OF Inr this, of rs] Cons.prems
      have "fst (cascade w la lo tok rp (Suc n) rs) = Inr out" by simp
      then show ?thesis by (rule Cons.IH)
    qed
  qed
qed

lemma bbox_request_defined:
  "deg_for_meters fp la r = Inr d \<Longrightarrow> \<exists>req. bbox_request fp la lo tok r = Inr req"
  by (cases d) (simp add: bbox_request_def)

lemma cascade_returns:
  "(\<forall>r \<in> set rs. \<exists>d. deg_for_meters (arith w) la r = Inr d) \<Longrightarrow>
   \<exists>out. fst (cascade w la lo tok rp n rs) = Inr out"
proof (induction rs arbitrary: n)
  case Nil
  then show ?case by simp
next
  case (Cons r rs)
  from Cons.prems obtain d where "deg_for_meters (arith w) la r = Inr d" by auto
  from bbox_request_defined [OF this] obtain req
    where req: "bbox_request (arith w) la lo tok r = Inr req" by blast
  have ih: "\<exists>out. fst (cascade w la lo tok rp (Suc n) rs) = Inr out"
    using Cons.prems by (intro Cons.IH) simp
  show ?case
  proof (cases "\<exists>q. find_try (arith w) la lo rp (http w n req) = Inr (Some q)")
    case True
    then obtain q where q: "find_try (arith w) la lo rp (http w n req) = Inr (Some q)"
      by blast
    from cascade_hit [OF req q, of rs] show ?thesis by simp
  next
    case False
    then have "\<forall>q. find_try (arith w) la lo rp (http w n req) \<noteq> Inr (Some q)" by blast
    from cascade_skip [OF req this, of rs] ih show ?thesis by simp
  qed
qed

text \<open>The definitions unfolded to run the resolver on a concrete answer.\<close>

lemmas eval_defs = find_try_def rank_items_def rank_entry_def coordinates_of_def py_or_def
  sort_ranked_def rank_key_def outcome_of_def item_a_def item_b_def item_c_def item_d_def

lemmas world_defs = plain_world_def dead_world_def empty_world_def bare_world_def
  nogeo_world_def late_pano_world_def sibling_world_def stray_world_def

text \<open>A bounding-box request is one.\<close>

lemma bbox_request_is_bbox: "bbox_request fp la lo tok r = Inr req \<Longrightarrow> is_bbox req"
  by (auto simp: bbox_request_def split: sum.splits prod.splits)

text \<open>With a well-formed token the direct block either returns, after the one request,
  or hands over to the loop over the radii.\<close>

lemma direct_hit:
  assumes "t \<noteq> []" "startswith t ''MLY|''"
    and "find_try (arith w) la lo rp (http w 0 (closeto_request la lo t)) = Inr (Some q)"
  shows "mapillary_find_best w la lo (Some t) radii rp
     = (Inr q, [Get (closeto_request la lo t)])"
  using assms by (simp add: mapillary_find_best_def)

lemma direct_miss:
  assumes "t \<noteq> []" "startswith t ''MLY|''"
    and "\<forall>q. find_try (arith w) la lo rp (http w 0 (closeto_request la lo t)) \<noteq> Inr (Some q)"
  shows "mapillary_find_best w la lo (Some t) radii rp
     = (fst (cascade w la lo t rp 1 radii),
        Get (closeto_request la lo t) # snd (cascade w la lo t rp 1 radii))"
proof (cases "find_try (arith w) la lo rp (http w 0 (closeto_request la lo t))")
  case (Inl e)
  then show ?thesis using assms(1,2) by (simp add: mapillary_find_best_def case_prod_beta)
next
  case (Inr v)
  with assms(3) have "v = None" by (cases v) auto
  with Inr show ?thesis using assms(1,2) by (simp add: mapillary_find_best_def case_prod_beta)
qed

text \<open>The bounding boxes of the radii 150 and 300 around the point (0, 0) are computed
  without an exception in the arithmetic of doubles.\<close>

lemma bbox_150:
  "\<exists>req. bbox_request double_fpu (Finite 0) (Finite 0) tok 150 = Inr req \<and> is_bbox req"
  by (simp add: bbox_request_def deg_for_meters_def arith_defs binary64_0 binary64_1
      binary64_150 Let_def)

lemma bbox_300:
  "\<exists>req. bbox_request double_fpu (Finite 0) (Finite 0) tok 300 = Inr req \<and> is_bbox req"
  by (simp add: bbox_request_def deg_for_meters_def arith_defs binary64_0 binary64_1
      binary64_300 Let_def)

section \<open>The cascade over the radii\<close>

text \<open>
  Claim C2, as amended. With a well-formed token, when the direct attempt has no
  qualifying outcome (its request fails, its candidates cannot all be ranked, or none of
  them qualifies) and the offsets of every radius are computed without an exception,
  \<open>mapillary_find_best\<close> visits the radii in the order given, one bounding-box query per
  radius, the query of the \<open>j\<close>-th radius being network call \<open>j + 1\<close>. A radius has a
  qualifying outcome when its query succeeds, every candidate of its answer is ranked
  without an exception, and the ranking has a panoramic entry when \<open>require_pano\<close> holds, or
  any entry otherwise; the outcome is the first such entry with its preview URL. If
  radius \<open>k\<close> is the first with a qualifying outcome, that outcome is the result and the
  effects are the direct query and the bounding-box queries of the radii up to \<open>k\<close>; if no
  radius has one, the result is \<open>Empty\<close> after the bounding-box queries of all the radii.
  A radius whose query fails has no qualifying outcome, so the next radius is tried.
\<close>

theorem cascade_first_qualifying_radius:
  assumes "t \<noteq> []" and "startswith t ''MLY|''"
    and "qualifying (arith w) la lo rp (http w 0 (closeto_request la lo t)) = None"
    and "list_all2 (\<lambda>r req. bbox_request (arith w) la lo t r = Inr req) radii reqs"
  shows "(\<forall>k out. k < length radii
            \<and> (\<forall>j<k. qualifying (arith w) la lo rp (http w (Suc j) (reqs ! j)) = None)
            \<and> qualifying (arith w) la lo rp (http w (Suc k) (reqs ! k)) = Some out
          \<longrightarrow> mapillary_find_best w la lo (Some t) radii rp
               = (Inr out, Get (closeto_request la lo t) # map Get (take (Suc k) reqs)))
      \<and> ((\<forall>j<length radii. qualifying (arith w) la lo rp (http w (Suc j) (reqs ! j)) = None)
          \<longrightarrow> mapillary_find_best w la lo (Some t) radii rp
               = (Inr Empty, Get (closeto_request la lo t) # map Get reqs))
      \<and> (\<forall>e. qualifying (arith w) la lo rp (Failed e) = None)
      \<and> (\<forall>req \<in> set reqs. is_bbox req)"
proof (intro conjI allI impI ballI)
  have direct: "\<forall>q. find_try (arith w) la lo rp (http w 0 (closeto_request la lo t)) \<noteq> Inr (Some q)"
    using assms(3) by (simp only: find_try_none)
  note miss = direct_miss [OF assms(1,2) direct, of radii]
  {
    fix k out
    assume a: "k < length radii
       \<and> (\<forall>j<k. qualifying (arith w) la lo rp (http w (Suc j) (reqs ! j)) = None)
       \<and> qualifying (arith w) la lo rp (http w (Suc k) (reqs ! k)) = Some out"
    have skip: "\<forall>j<k. \<forall>q. find_try (arith w) la lo rp (http w (1 + j) (reqs ! j)) \<noteq> Inr (Some q)"
    proof (intro allI impI)
      fix j q
      assume "j < k"
      with a have "qualifying (arith w) la lo rp (http w (Suc j) (reqs ! j)) = None" by blast
      then show "find_try (arith w) la lo rp (http w (1 + j) (reqs ! j)) \<noteq> Inr (Some q)"
        by (simp add: find_try_qualifying)
    qed
    have hit: "find_try (arith w) la lo rp (http w (1 + k) (reqs ! k)) = Inr (Some out)"
      using a by (simp add: find_try_qualifying)
    from cascade_stops [OF assms(4) _ skip hit] a
    have "cascade w la lo t rp 1 radii = (Inr out, map Get (take (Suc k) reqs))"
      by blast
    with miss
    show "mapillary_find_best w la lo (Some t) radii rp
       = (Inr out, Get (closeto_request la lo t) # map Get (take (Suc k) reqs))"
      by simp
  }
  {
    assume a: "\<forall>j<length radii. qualifying (arith w) la lo rp (http w (Suc j) (reqs ! j)) = None"
    have skip: "\<forall>j<length radii. \<forall>q.
        find_try (arith w) la lo rp (http w (1 + j) (reqs ! j)) \<noteq> Inr (Some q)"
    proof (intro allI impI)
      fix j q
      assume "j < length radii"
      with a have "qualifying (arith w) la lo rp (http w (Suc j) (reqs ! j)) = None" by blast
      then show "find_try (arith w) la lo rp (http w (1 + j) (reqs ! j)) \<noteq> Inr (Some q)"
        by (simp add: find_try_qualifying)
    qed
    from cascade_exhausted [OF assms(4) skip]
    have "cascade w la lo t rp 1 radii = (Inr Empty, map Get reqs)" .
    with miss
    show "mapillary_find_best w la lo (Some t) radii rp
       = (Inr Empty, Get (closeto_request la lo t) # map Get reqs)"
      by simp
  }
  {
    fix e
    show "qualifying (arith w) la lo rp (Failed e) = None"
      by (simp add: qualifying_def)
  }
  {
    fix req
    assume "req \<in> set reqs"
    then obtain i where "i < length reqs" "req = reqs ! i"
      by (auto simp: in_set_conv_nth)
    with assms(4) have "bbox_request (arith w) la lo t (radii ! i) = Inr req"
      by (simp add: list_all2_conv_all_nth)
    then show "is_bbox req" by (rule bbox_request_is_bbox)
  }
qed

theorem cascade_first_qualifying_radius_witness:
  "\<exists>reqs. ''MLY|x'' \<noteq> [] \<and> startswith ''MLY|x'' ''MLY|''
     \<and> qualifying (arith late_pano_world) (Finite 0) (Finite 0) True
         (http late_pano_world 0 (closeto_request (Finite 0) (Finite 0) ''MLY|x'')) = None
     \<and> list_all2 (\<lambda>r req. bbox_request (arith late_pano_world) (Finite 0) (Finite 0) ''MLY|x'' r
                             = Inr req) [150, 300] reqs
     \<and> qualifying (arith late_pano_world) (Finite 0) (Finite 0) True
         (http late_pano_world 1 (reqs ! 0)) = None
     \<and> qualifying (arith late_pano_world) (Finite 0) (Finite 0) True
         (http late_pano_world 2 (reqs ! 1)) = Some (JStr ''p'', item_b)
     \<and> mapillary_find_best late_pano_world (Finite 0) (Finite 0) (Some ''MLY|x'') [150, 300] True
         = (Inr (JStr ''p'', item_b),
            Get (closeto_request (Finite 0) (Finite 0) ''MLY|x'') # map Get reqs)"
proof -
  let ?w = late_pano_world
  have ar: "arith ?w = double_fpu" by (simp add: world_defs)
  obtain r1 where r1: "bbox_request (arith ?w) (Finite 0) (Finite 0) ''MLY|x'' 150 = Inr r1"
    unfolding ar using bbox_150 by blast
  obtain r2 where r2: "bbox_request (arith ?w) (Finite 0) (Finite 0) ''MLY|x'' 300 = Inr r2"
    unfolding ar using bbox_300 by blast
  have t1: "''MLY|x'' \<noteq> []" by simp
  have t2: "startswith ''MLY|x'' ''MLY|''" by (simp add: startswith_def)
  have early: "qualifying (arith ?w) (Finite 0) (Finite 0) True (http ?w n req) = None"
    if "n < 2" for n req
    using that by (simp add: world_defs qualifying_def select_entry_def eval_defs field_def)
  have late: "qualifying (arith ?w) (Finite 0) (Finite 0) True (http ?w 2 req)
      = Some (JStr ''p'', item_b)" for req
    by (simp add: world_defs qualifying_def select_entry_def eval_defs field_def)
  have d: "qualifying (arith ?w) (Finite 0) (Finite 0) True
      (http ?w 0 (closeto_request (Finite 0) (Finite 0) ''MLY|x'')) = None"
    by (rule early) simp
  have l: "list_all2 (\<lambda>r req. bbox_request (arith ?w) (Finite 0) (Finite 0) ''MLY|x'' r = Inr req)
      [150, 300] [r1, r2]"
    using r1 r2 by simp
  have q0: "qualifying (arith ?w) (Finite 0) (Finite 0) True (http ?w 1 ([r1, r2] ! 0)) = None"
    by (rule early) simp
  have q1: "qualifying (arith ?w) (Finite 0) (Finite 0) True (http ?w 2 ([r1, r2] ! 1))
      = Some (JStr ''p'', item_b)"
    by (rule late)
  have hyp: "Suc 0 < length [150, 300::real]
     \<and> (\<forall>j<Suc 0. qualifying (arith ?w) (Finite 0) (Finite 0) True
                     (http ?w (Suc j) ([r1, r2] ! j)) = None)
     \<and> qualifying (arith ?w) (Finite 0) (Finite 0) True
         (http ?w (Suc (Suc 0)) ([r1, r2] ! Suc 0)) = Some (JStr ''p'', item_b)"
    using q0 q1 by (simp add: numeral_2_eq_2)
  note T = cascade_first_qualifying_radius [OF t1 t2 d l, THEN conjunct1, THEN spec,
      THEN spec, THEN mp, OF hyp]
  have m: "mapillary_find_best ?w (Finite 0) (Finite 0) (Some ''MLY|x'') [150, 300] True
      = (Inr (JStr ''p'', item_b),
         Get (closeto_request (Finite 0) (Finite 0) ''MLY|x'') # map Get [r1, r2])"
    using T by simp
  show ?thesis
    by (rule exI [of _ "[r1, r2]"], intro conjI) (rule t1 t2 d l q0 q1 m)+
qed

text \<open>
  The claim as stated fails. With a panorama required and the radii 150 and 300, the
  answer to the query of the first radius holds a panoramic candidate that has a
  thumbnail, next to a string; the ranking of that answer raises on the string, the radius
  is skipped, the second radius is queried, and the result is \<open>Empty\<close>.
\<close>

theorem malformed_sibling_counterexample:
  "fst (mapillary_find_best sibling_world (Finite 0) (Finite 0) (Some ''MLY|x'') [150, 300] True)
     = Inr Empty
   \<and> map is_bbox (requests_of (snd (mapillary_find_best sibling_world (Finite 0) (Finite 0)
                                      (Some ''MLY|x'') [150, 300] True)))
     = [False, True, True]
   \<and> http sibling_world 1
       (requests_of (snd (mapillary_find_best sibling_world (Finite 0) (Finite 0)
                            (Some ''MLY|x'') [150, 300] True)) ! 1)
     = Body (JObj [(''data'', JArr [JStr ''x'', item_b])])
   \<and> truthy (field item_b ''is_pano'')
   \<and> field item_b ''thumb_2048_url'' = JStr ''p''"
proof -
  let ?w = sibling_world
  have ar: "arith ?w = double_fpu" by (simp add: world_defs)
  obtain r1 where r1: "bbox_request (arith ?w) (Finite 0) (Finite 0) ''MLY|x'' 150 = Inr r1"
    and b1: "is_bbox r1"
    unfolding ar using bbox_150 by blast
  obtain r2 where r2: "bbox_request (arith ?w) (Finite 0) (Finite 0) ''MLY|x'' 300 = Inr r2"
    and b2: "is_bbox r2"
    unfolding ar using bbox_300 by blast
  have t1: "''MLY|x'' \<noteq> []" by simp
  have t2: "startswith ''MLY|x'' ''MLY|''" by (simp add: startswith_def)
  have f0: "\<forall>q. find_try (arith ?w) (Finite 0) (Finite 0) True
      (http ?w 0 (closeto_request (Finite 0) (Finite 0) ''MLY|x'')) \<noteq> Inr (Some q)"
    by (simp add: world_defs find_try_def)
  have f1: "\<forall>q. find_try (arith ?w) (Finite 0) (Finite 0) True (http ?w 1 r1) \<noteq> Inr (Some q)"
    by (simp add: world_defs eval_defs)
  have f2: "\<forall>q. find_try (arith ?w) (Finite 0) (Finite 0) True (http ?w (Suc 1) r2) \<noteq> Inr (Some q)"
    by (simp add: world_defs eval_defs)
  have c2: "cascade ?w (Finite 0) (Finite 0) ''MLY|x'' True (Suc 1) [300] = (Inr Empty, [Get r2])"
    using cascade_skip [OF r2 f2, of "[]"] by simp
  have c1: "cascade ?w (Finite 0) (Finite 0) ''MLY|x'' True 1 [150, 300]
      = (Inr Empty, [Get r1, Get r2])"
    using cascade_skip [OF r1 f1, of "[300]"] c2 by simp
  have m: "mapillary_find_best ?w (Finite 0) (Finite 0) (Some ''MLY|x'') [150, 300] True
      = (Inr Empty, [Get (closeto_request (Finite 0) (Finite 0) ''MLY|x''), Get r1, Get r2])"
    using direct_miss [OF t1 t2 f0, of "[150, 300]"] c1 by simp
  have h: "http ?w 1 r1 = Body (JObj [(''data'', JArr [JStr ''x'', item_b])])"
    by (simp add: world_defs)
  have p: "truthy (field item_b ''is_pano'')" "field item_b ''thumb_2048_url'' = JStr ''p''"
    by (simp_all add: field_def item_b_def)
  show ?thesis
    unfolding m using b1 b2 h p by (simp add: closeto_request_def)
qed

section \<open>What is returned\<close>

text \<open>What the block returns without the panorama requirement, what it does when no
  entry is panoramic, and where every result of \<open>mapillary_find_best\<close> comes from.\<close>

lemma find_try_first:
  assumes "py_get j ''data'' (JArr []) = Inr items" and "truthy items"
    and "rank_items fp la lo items = Inr ranked"
  shows "find_try fp la lo False (Body j)
     = Inr (Some (py_or (field (snd (snd (hd ranked))) ''thumb_1024_url'')
                        (field (snd (snd (hd ranked))) ''thumb_2048_url''),
                  snd (snd (hd ranked))))"
proof -
  from rank_items_nonempty [OF assms(3) assms(2)] obtain e es where r: "ranked = e # es"
    by (cases ranked) auto
  then have "e \<in> set ranked" by simp
  from rank_items_outcome [OF assms(3) this] assms r show ?thesis
    by (simp add: find_try_def)
qed

lemma find_try_no_pano:
  assumes "py_get j ''data'' (JArr []) = Inr items"
    and "rank_items fp la lo items = Inr ranked" and "filter fst ranked = []"
  shows "find_try fp la lo True (Body j) = Inr None"
  using assms by (simp add: find_try_def)

lemma mapillary_result:
  assumes "fst (mapillary_find_best w la lo token radii rp) = Inr out"
  shows "out = Empty \<or> (\<exists>resp. find_try (arith w) la lo rp resp = Inr (Some out))"
proof (cases "\<exists>t. token = Some t \<and> t \<noteq> [] \<and> startswith t ''MLY|''")
  case False
  then have "mapillary_find_best w la lo token radii rp = (Inr Empty, [])"
    by (cases token) (auto simp: mapillary_find_best_def)
  with assms show ?thesis by simp
next
  case True
  then obtain t where t: "token = Some t" "t \<noteq> []" "startswith t ''MLY|''" by blast
  show ?thesis
  proof (cases "\<exists>q. find_try (arith w) la lo rp (http w 0 (closeto_request la lo t)) = Inr (Some q)")
    case True
    then obtain q
      where q: "find_try (arith w) la lo rp (http w 0 (closeto_request la lo t)) = Inr (Some q)"
      by blast
    from direct_hit [OF t(2,3) q, of radii] assms t(1) have "out = q" by simp
    with q show ?thesis by blast
  next
    case False
    then have nq: "\<forall>q. find_try (arith w) la lo rp (http w 0 (closeto_request la lo t))
        \<noteq> Inr (Some q)"
      by blast
    from direct_miss [OF t(2,3) nq, of radii] assms t(1)
    have "fst (cascade w la lo t rp 1 radii) = Inr out"
      by simp
    then show ?thesis by (rule cascade_result)
  qed
qed

text \<open>
  Claim C1, as amended. Whenever \<open>mapillary_find_best\<close> returns something other than
  \<open>Empty\<close>, the returned candidate is a record of the provider, and the preview URL is
  the candidate's small thumbnail when that field is present and not empty, and otherwise
  the value of its large thumbnail field, which is \<^verbatim>\<open>None\<close> when that field is absent too.
\<close>

theorem returned_preview_url:
  assumes "mapillary_find_best w la lo token radii rp = (Inr (url, it), tr)"
    and "(url, it) \<noteq> Empty"
  shows "(\<exists>kvs. it = JObj kvs)
     \<and> url = (if truthy (field it ''thumb_1024_url'') then field it ''thumb_1024_url''
              else field it ''thumb_2048_url'')"
proof -
  from assms(1) have "fst (mapillary_find_best w la lo token radii rp) = Inr (url, it)"
    by simp
  from mapillary_result [OF this] assms(2) obtain resp
    where "find_try (arith w) la lo rp resp = Inr (Some (url, it))"
    by blast
  from find_try_outcome [OF this] show ?thesis
    by (simp add: py_or_def)
qed

theorem returned_preview_url_witness:
  "mapillary_find_best late_pano_world (Finite 0) (Finite 0) (Some ''MLY|x'') default_radii False
     = (Inr (JStr ''u'', item_a), [Get (closeto_request (Finite 0) (Finite 0) ''MLY|x'')])
   \<and> (JStr ''u'', item_a) \<noteq> Empty
   \<and> (\<exists>kvs. item_a = JObj kvs)
   \<and> JStr ''u'' = (if truthy (field item_a ''thumb_1024_url'') then field item_a ''thumb_1024_url''
                    else field item_a ''thumb_2048_url'')"
proof -
  have h: "http late_pano_world 0 (closeto_request (Finite 0) (Finite 0) ''MLY|x'')
      = Body (JObj [(''data'', JArr [item_a])])"
    by (simp add: world_defs)
  have f: "find_try fp (Finite 0) (Finite 0) False (Body (JObj [(''data'', JArr [item_a])]))
      = Inr (Some (JStr ''u'', item_a))" for fp
    by (simp add: eval_defs)
  have s: "startswith ''MLY|x'' ''MLY|''" by (simp add: startswith_def)
  have m: "mapillary_find_best late_pano_world (Finite 0) (Finite 0) (Some ''MLY|x'')
        default_radii False
     = (Inr (JStr ''u'', item_a), [Get (closeto_request (Finite 0) (Finite 0) ''MLY|x'')])"
    using s by (simp add: mapillary_find_best_def h f)
  have n: "(JStr ''u'', item_a) \<noteq> Empty" by (simp add: Empty_def)
  show ?thesis
    by (intro conjI) (rule m n returned_preview_url [OF m n, THEN conjunct1]
        returned_preview_url [OF m n, THEN conjunct2])+
qed

text \<open>
  The claim as stated fails: when the provider's answer to the direct query holds one
  candidate that has neither thumbnail field, that candidate is returned, with \<^verbatim>\<open>None\<close>
  as its preview URL.
\<close>

theorem thumbnail_less_candidate_counterexample:
  "mapillary_find_best bare_world (Finite 0) (Finite 0) (Some ''MLY|x'') default_radii False
     = (Inr (JNull, item_d), [Get (closeto_request (Finite 0) (Finite 0) ''MLY|x'')])
   \<and> (JNull, item_d) \<noteq> Empty
   \<and> field item_d ''thumb_1024_url'' = JNull
   \<and> field item_d ''thumb_2048_url'' = JNull"
proof -
  have h: "http bare_world 0 (closeto_request (Finite 0) (Finite 0) ''MLY|x'')
      = Body (JObj [(''data'', JArr [item_d])])"
    by (simp add: world_defs)
  have f: "find_try fp (Finite 0) (Finite 0) False (Body (JObj [(''data'', JArr [item_d])]))
      = Inr (Some (JNull, item_d))" for fp
    by (simp add: eval_defs)
  have s: "startswith ''MLY|x'' ''MLY|''" by (simp add: startswith_def)
  have m: "mapillary_find_best bare_world (Finite 0) (Finite 0) (Some ''MLY|x'')
        default_radii False
     = (Inr (JNull, item_d), [Get (closeto_request (Finite 0) (Finite 0) ''MLY|x'')])"
    using s by (simp add: mapillary_find_best_def h f)
  have n: "(JNull, item_d) \<noteq> Empty" by (simp add: Empty_def item_d_def)
  have a: "field item_d ''thumb_1024_url'' = JNull" "field item_d ''thumb_2048_url'' = JNull"
    by (simp_all add: field_def item_d_def)
  show ?thesis
    by (intro conjI) (rule m n a)+
qed

section \<open>The direct phase\<close>

text \<open>The direct query is not a bounding-box query, and a loop over at least one radius
  whose offsets are computed starts with the bounding-box query of the first.\<close>

lemma closeto_not_bbox: "\<not> is_bbox (closeto_request la lo t)"
  by (simp add: closeto_request_def)

lemma cascade_first_event:
  "bbox_request (arith w) la lo t r = Inr req \<Longrightarrow>
   \<exists>tr'. snd (cascade w la lo t rp n (r # rs)) = Get req # tr'"
  by (auto split: sum.splits option.splits prod.splits)

text \<open>
  Claim C8, as amended. With a well-formed token, let the direct query succeed with at
  least one candidate and let every entry of its answer be ranked without an exception:
  its body holds a non-empty list under \<^verbatim>\<open>data\<close> on which \<open>rank_items\<close> returns. If
  \<open>require_pano\<close> is false, \<open>mapillary_find_best\<close> returns the first-ranked candidate of that
  query and its only effect is the direct query: no bounding-box query is issued. If
  \<open>require_pano\<close> is true and no ranked entry is panoramic, the result and the further
  effects are those of the loop over the radii, which starts with the bounding-box query
  of the first radius when the offsets of that radius are computed. And with
  \<open>require_pano\<close> true every candidate returned, by whichever phase, is panoramic.
\<close>

theorem direct_phase:
  assumes "t \<noteq> []" and "startswith t ''MLY|''"
    and "http w 0 (closeto_request la lo t) = Body j"
    and "py_get j ''data'' (JArr []) = Inr items" and "truthy items"
    and "rank_items (arith w) la lo items = Inr ranked"
  shows "(\<not> rp \<longrightarrow>
           (\<exists>url. mapillary_find_best w la lo (Some t) radii rp
                    = (Inr (url, snd (snd (hd ranked))), [Get (closeto_request la lo t)]))
           \<and> filter is_bbox (requests_of (snd (mapillary_find_best w la lo (Some t) radii rp))) = [])
    \<and> (rp \<and> filter fst ranked = [] \<longrightarrow>
           mapillary_find_best w la lo (Some t) radii rp
             = (fst (cascade w la lo t rp 1 radii),
                Get (closeto_request la lo t) # snd (cascade w la lo t rp 1 radii))
           \<and> (\<forall>r rs req. radii = r # rs \<and> bbox_request (arith w) la lo t r = Inr req \<longrightarrow>
                 (\<exists>tr'. snd (mapillary_find_best w la lo (Some t) radii rp)
                    = Get (closeto_request la lo t) # Get req # tr')))
    \<and> (rp \<longrightarrow> (\<forall>url it tr. mapillary_find_best w la lo (Some t) radii rp = (Inr (url, it), tr)
                    \<and> (url, it) \<noteq> Empty \<longrightarrow> truthy (field it ''is_pano'')))"
proof (intro conjI impI allI)
  assume "\<not> rp"
  then have f: "find_try (arith w) la lo rp (http w 0 (closeto_request la lo t))
     = Inr (Some (py_or (field (snd (snd (hd ranked))) ''thumb_1024_url'')
                        (field (snd (snd (hd ranked))) ''thumb_2048_url''),
                  snd (snd (hd ranked))))"
    using find_try_first [OF assms(4,5,6)] assms(3) by simp
  note m = direct_hit [OF assms(1,2) f, of radii]
  from m show "\<exists>url. mapillary_find_best w la lo (Some t) radii rp
                    = (Inr (url, snd (snd (hd ranked))), [Get (closeto_request la lo t)])"
    by blast
  from m show "filter is_bbox (requests_of (snd (mapillary_find_best w la lo (Some t) radii rp))) = []"
    by (simp add: closeto_not_bbox)
next
  assume a: "rp \<and> filter fst ranked = []"
  then have "find_try (arith w) la lo rp (http w 0 (closeto_request la lo t)) = Inr None"
    using find_try_no_pano [OF assms(4,6)] assms(3) by simp
  then have nq: "\<forall>q. find_try (arith w) la lo rp (http w 0 (closeto_request la lo t))
      \<noteq> Inr (Some q)"
    by simp
  note m = direct_miss [OF assms(1,2) nq, of radii]
  from m show "mapillary_find_best w la lo (Some t) radii rp
             = (fst (cascade w la lo t rp 1 radii),
                Get (closeto_request la lo t) # snd (cascade w la lo t rp 1 radii))" .
  fix r rs req assume "radii = r # rs \<and> bbox_request (arith w) la lo t r = Inr req"
  with cascade_first_event [of w la lo t r req rp 1 rs] m
  show "\<exists>tr'. snd (mapillary_find_best w la lo (Some t) radii rp)
                    = Get (closeto_request la lo t) # Get req # tr'"
    by auto
next
  fix url it tr
  assume rp and a: "mapillary_find_best w la lo (Some t) radii rp = (Inr (url, it), tr)
                    \<and> (url, it) \<noteq> Empty"
  then have "fst (mapillary_find_best w la lo (Some t) radii rp) = Inr (url, it)"
    by simp
  from mapillary_result [OF this] a obtain resp
    where "find_try (arith w) la lo rp resp = Inr (Some (url, it))"
    by blast
  from find_try_outcome [OF this] \<open>rp\<close> show "truthy (field it ''is_pano'')"
    by simp
qed

theorem direct_phase_witness:
  "''MLY|x'' \<noteq> [] \<and> startswith ''MLY|x'' ''MLY|''
   \<and> http late_pano_world 0 (closeto_request (Finite 0) (Finite 0) ''MLY|x'')
       = Body (JObj [(''data'', JArr [item_a])])
   \<and> truthy (JArr [item_a])
   \<and> rank_items (arith late_pano_world) (Finite 0) (Finite 0) (JArr [item_a])
       = Inr [(False, Infinite, item_a)]
   \<and> (\<exists>url. mapillary_find_best late_pano_world (Finite 0) (Finite 0) (Some ''MLY|x'')
               default_radii False
          = (Inr (url, item_a), [Get (closeto_request (Finite 0) (Finite 0) ''MLY|x'')]))
   \<and> (\<exists>req tr'. bbox_request (arith late_pano_world) (Finite 0) (Finite 0) ''MLY|x'' 150 = Inr req
          \<and> snd (mapillary_find_best late_pano_world (Finite 0) (Finite 0) (Some ''MLY|x'')
                   default_radii True)
            = Get (closeto_request (Finite 0) (Finite 0) ''MLY|x'') # Get req # tr')"
proof -
  let ?w = late_pano_world
  have ar: "arith ?w = double_fpu" by (simp add: world_defs)
  obtain req where req: "bbox_request (arith ?w) (Finite 0) (Finite 0) ''MLY|x'' 150 = Inr req"
    unfolding ar using bbox_150 by blast
  have t1: "''MLY|x'' \<noteq> []" by simp
  have t2: "startswith ''MLY|x'' ''MLY|''" by (simp add: startswith_def)
  have h: "http ?w 0 (closeto_request (Finite 0) (Finite 0) ''MLY|x'')
      = Body (JObj [(''data'', JArr [item_a])])"
    by (simp add: world_defs)
  have g: "py_get (JObj [(''data'', JArr [item_a])]) ''data'' (JArr []) = Inr (JArr [item_a])"
    by simp
  have tr: "truthy (JArr [item_a])" by simp
  have r: "rank_items (arith ?w) (Finite 0) (Finite 0) (JArr [item_a])
      = Inr [(False, Infinite, item_a)]"
    by (simp add: eval_defs)
  note T = direct_phase [OF t1 t2 h g tr r]
  have a: "\<exists>url. mapillary_find_best ?w (Finite 0) (Finite 0) (Some ''MLY|x'') default_radii False
          = (Inr (url, item_a), [Get (closeto_request (Finite 0) (Finite 0) ''MLY|x'')])"
    using T [of False default_radii, THEN conjunct1] by simp
  have np: "True \<and> filter fst [(False, Infinite, item_a)] = []" by simp
  have d: "default_radii = 150 # [300, 600, 1200, 3000, 6000, 10000]
      \<and> bbox_request (arith ?w) (Finite 0) (Finite 0) ''MLY|x'' 150 = Inr req"
    using req by (simp add: default_radii_def)
  have b: "\<exists>tr'. snd (mapillary_find_best ?w (Finite 0) (Finite 0) (Some ''MLY|x'')
                         default_radii True)
          = Get (closeto_request (Finite 0) (Finite 0) ''MLY|x'') # Get req # tr'"
    by (rule T [of True default_radii, THEN conjunct2, THEN conjunct1, THEN mp, OF np,
          THEN conjunct2, THEN spec, THEN spec, THEN spec, THEN mp, OF d])
  have c: "\<exists>req tr'. bbox_request (arith ?w) (Finite 0) (Finite 0) ''MLY|x'' 150 = Inr req
          \<and> snd (mapillary_find_best ?w (Finite 0) (Finite 0) (Some ''MLY|x'')
                   default_radii True)
            = Get (closeto_request (Finite 0) (Finite 0) ''MLY|x'') # Get req # tr'"
    using req b by blast
  show ?thesis
    by (intro conjI) (rule t1 t2 h tr r a c)+
qed

text \<open>
  The claim as stated fails. The direct query succeeds and its answer holds a candidate
  that has a thumbnail, next to a string; no panorama is required. The ranking raises on
  the string, the direct block returns nothing, and \<open>mapillary_find_best\<close> goes on to the
  bounding-box query of the radius 150 and returns \<open>Empty\<close>.
\<close>

theorem direct_answer_counterexample:
  "http stray_world 0 (closeto_request (Finite 0) (Finite 0) ''MLY|x'')
     = Body (JObj [(''data'', JArr [JStr ''x'', item_a])])
   \<and> fst (mapillary_find_best stray_world (Finite 0) (Finite 0) (Some ''MLY|x'') [150] False)
     = Inr Empty
   \<and> map is_bbox (requests_of (snd (mapillary_find_best stray_world (Finite 0) (Finite 0)
                                      (Some ''MLY|x'') [150] False)))
     = [False, True]"
proof -
  let ?w = stray_world
  have ar: "arith ?w = double_fpu" by (simp add: world_defs)
  obtain r1 where r1: "bbox_request (arith ?w) (Finite 0) (Finite 0) ''MLY|x'' 150 = Inr r1"
    and b1: "is_bbox r1"
    unfolding ar using bbox_150 by blast
  have t1: "''MLY|x'' \<noteq> []" by simp
  have t2: "startswith ''MLY|x'' ''MLY|''" by (simp add: startswith_def)
  have h: "http ?w 0 (closeto_request (Finite 0) (Finite 0) ''MLY|x'')
     = Body (JObj [(''data'', JArr [JStr ''x'', item_a])])"
    by (simp add: world_defs)
  have f0: "\<forall>q. find_try (arith ?w) (Finite 0) (Finite 0) False
      (http ?w 0 (closeto_request (Finite 0) (Finite 0) ''MLY|x'')) \<noteq> Inr (Some q)"
    unfolding h by (simp add: eval_defs)
  have f1: "\<forall>q. find_try (arith ?w) (Finite 0) (Finite 0) False (http ?w 1 r1) \<noteq> Inr (Some q)"
    by (simp add: world_defs eval_defs)
  have c1: "cascade ?w (Finite 0) (Finite 0) ''MLY|x'' False 1 [150] = (Inr Empty, [Get r1])"
    using cascade_skip [OF r1 f1, of "[]"] by simp
  have m: "mapillary_find_best ?w (Finite 0) (Finite 0) (Some ''MLY|x'') [150] False
      = (Inr Empty, [Get (closeto_request (Finite 0) (Finite 0) ''MLY|x''), Get r1])"
    using direct_miss [OF t1 t2 f0, of "[150]"] c1 by simp
  show ?thesis
    unfolding m using b1 h by (simp add: closeto_request_def)
qed

section \<open>Candidates without coordinates\<close>

text \<open>A candidate whose coordinate is absent gets the distance \<open>Infinite\<close>; in a ranked
  list an entry at infinite distance comes after every entry of the same flag at a finite
  distance.\<close>

lemma rank_entry_absent:
  assumes "coordinate_absent it"
  shows "rank_entry fp la lo it = Inr (truthy (field it ''is_pano''), Infinite, it)"
proof -
  from assms obtain g where g: "coordinates_of it = Inr g" and p: "\<not> is_pair g"
    by (auto simp: coordinate_absent_def split: sum.splits)
  from g obtain kvs where k: "it = JObj kvs"
    by (cases it) (auto simp: coordinates_of_def)
  have d: "(case g of JArr [g0, g1] \<Rightarrow> haversine_m fp la lo g1 g0
            | _ \<Rightarrow> Inr Infinite) = (Inr Infinite :: exn + pyfloat)"
    using p by (cases g rule: is_pair.cases) simp_all
  show ?thesis
    unfolding rank_entry_def g sum.case d
    by (simp add: k field_def)
qed

lemma rank_entries_absent:
  "\<forall>it \<in> set xs. coordinate_absent it \<Longrightarrow>
   rank_entries fp la lo xs = Inr (map (\<lambda>it. (truthy (field it ''is_pano''), Infinite, it)) xs)"
  by (induction xs) (simp_all add: rank_entry_absent)

lemma infinite_after_finite:
  assumes "sorted_wrt ranks_before ranked"
    and "i < length ranked" "j < length ranked"
    and "fst (ranked ! i) = fst (ranked ! j)"
    and "fst (snd (ranked ! i)) = Infinite" "fst (snd (ranked ! j)) \<noteq> Infinite"
  shows "j < i"
proof (rule ccontr)
  assume "\<not> j < i"
  moreover have "i \<noteq> j" using assms(5,6) by auto
  ultimately have "i < j" by simp
  then have "ranks_before (ranked ! i) (ranked ! j)"
    using assms(1,3) by (simp add: sorted_wrt_iff_nth_less)
  then have "fst (snd (ranked ! i)) \<le> fst (snd (ranked ! j))"
    using assms(4) by (auto simp: ranks_before_def)
  then show False
    using assms(5,6) by (cases "fst (snd (ranked ! j))") simp_all
qed

text \<open>Which of the candidates of the examples have a coordinate, and two rankings in the
  arithmetic of doubles.\<close>

lemma absent_examples:
  "coordinate_absent item_a" "coordinate_absent item_b" "\<not> coordinate_absent item_c"
  "coordinate_absent item_d"
  by (simp_all add: coordinate_absent_def coordinates_of_def py_or_def
      item_a_def item_b_def item_c_def item_d_def)

lemma rank_same_flag:
  "rank_items double_fpu (Finite 0) (Finite 0) (JArr [item_a, item_c])
     = Inr [(False, Finite 0, item_c), (False, Infinite, item_a)]"
  by (simp add: eval_defs distance_same_point_double)

lemma rank_pano_first:
  "rank_items double_fpu (Finite 0) (Finite 0) (JArr [item_c, item_b])
     = Inr [(True, Infinite, item_b), (False, Finite 0, item_c)]"
  by (simp add: eval_defs distance_same_point_double)

text \<open>
  Claim C7, as amended. A candidate with an absent coordinate is given an infinite
  distance. In the list \<open>rank_items\<close> returns it comes after every candidate that has
  the same panorama flag and a finite distance. When the answer to a query holds only
  candidates with absent coordinates, at least one, and \<open>require_pano\<close> is false, the block
  of that query returns the first-ranked of them: the query does produce an outcome,
  whose candidate has no coordinate.
\<close>

theorem absent_coordinate_ranking:
  "(coordinate_absent it \<longrightarrow>
      rank_entry fp la lo it = Inr (truthy (field it ''is_pano''), Infinite, it))
   \<and> (rank_items fp la lo items = Inr ranked \<longrightarrow>
        (\<forall>i j. i < length ranked \<and> j < length ranked
           \<and> fst (ranked ! i) = fst (ranked ! j)
           \<and> fst (snd (ranked ! i)) = Infinite \<and> fst (snd (ranked ! j)) \<noteq> Infinite
           \<longrightarrow> j < i))
   \<and> (xs \<noteq> [] \<and> (\<forall>c \<in> set xs. coordinate_absent c) \<and> py_get j ''data'' (JArr []) = Inr (JArr xs)
        \<longrightarrow> (\<exists>rk url c. rank_items fp la lo (JArr xs) = Inr rk
               \<and> find_try fp la lo False (Body j) = Inr (Some (url, c))
               \<and> c = snd (snd (hd rk)) \<and> c \<in> set xs \<and> coordinate_absent c))"
proof (intro conjI impI allI)
  assume "coordinate_absent it"
  then show "rank_entry fp la lo it = Inr (truthy (field it ''is_pano''), Infinite, it)"
    by (rule rank_entry_absent)
next
  fix i j
  assume r: "rank_items fp la lo items = Inr ranked"
    and a: "i < length ranked \<and> j < length ranked
           \<and> fst (ranked ! i) = fst (ranked ! j)
           \<and> fst (snd (ranked ! i)) = Infinite \<and> fst (snd (ranked ! j)) \<noteq> Infinite"
  from rank_items_unfold [OF r] have "sorted_wrt ranks_before ranked"
    using sort_ranked_sorted by auto
  then show "j < i"
    using a by (intro infinite_after_finite [of ranked i j]) simp_all
next
  assume a: "xs \<noteq> [] \<and> (\<forall>c \<in> set xs. coordinate_absent c)
      \<and> py_get j ''data'' (JArr []) = Inr (JArr xs)"
  define ts where "ts = map (\<lambda>it. (truthy (field it ''is_pano''), Infinite, it)) xs"
  have e: "rank_entries fp la lo xs = Inr ts"
    using a rank_entries_absent [of xs fp la lo] by (simp add: ts_def)
  then have r: "rank_items fp la lo (JArr xs) = Inr (sort_ranked ts)"
    by (simp add: rank_items_def)
  have t: "truthy (JArr xs)" using a by simp
  have ne: "sort_ranked ts \<noteq> []"
    using rank_items_nonempty [OF r t] .
  then have "hd (sort_ranked ts) \<in> set (sort_ranked ts)" by (rule hd_in_set)
  then have "hd (sort_ranked ts) \<in> set ts"
    using sort_ranked_mset [of ts] by (metis set_mset_mset)
  then have m: "snd (snd (hd (sort_ranked ts))) \<in> set xs"
    by (auto simp: ts_def)
  then have c: "coordinate_absent (snd (snd (hd (sort_ranked ts))))"
    using a by blast
  from a have g: "py_get j ''data'' (JArr []) = Inr (JArr xs)" by simp
  from find_try_first [OF g t r] r m c
  show "\<exists>rk url c. rank_items fp la lo (JArr xs) = Inr rk
               \<and> find_try fp la lo False (Body j) = Inr (Some (url, c))
               \<and> c = snd (snd (hd rk)) \<and> c \<in> set xs \<and> coordinate_absent c"
    by blast
qed

theorem absent_coordinate_ranking_witness:
  "coordinate_absent item_a \<and> coordinate_absent item_d
   \<and> rank_entry double_fpu (Finite 0) (Finite 0) item_a
       = Inr (truthy (field item_a ''is_pano''), Infinite, item_a)
   \<and> rank_items double_fpu (Finite 0) (Finite 0) (JArr [item_a, item_c])
       = Inr [(False, Finite 0, item_c), (False, Infinite, item_a)]
   \<and> (0::nat) < 1
   \<and> (\<exists>rk url c. rank_items double_fpu (Finite 0) (Finite 0) (JArr [item_a, item_d]) = Inr rk
        \<and> find_try double_fpu (Finite 0) (Finite 0) False
            (Body (JObj [(''data'', JArr [item_a, item_d])])) = Inr (Some (url, c))
        \<and> c = snd (snd (hd rk)) \<and> c \<in> set [item_a, item_d] \<and> coordinate_absent c)"
proof -
  note ca = absent_examples(1) and cd = absent_examples(4)
  note r = rank_same_flag
  have ij: "(1::nat) < length [(False, Finite 0, item_c), (False, Infinite, item_a)]
     \<and> (0::nat) < length [(False, Finite 0, item_c), (False, Infinite, item_a)]
     \<and> fst ([(False, Finite 0, item_c), (False, Infinite, item_a)] ! 1)
         = fst ([(False, Finite 0, item_c), (False, Infinite, item_a)] ! 0)
     \<and> fst (snd ([(False, Finite 0, item_c), (False, Infinite, item_a)] ! 1)) = Infinite
     \<and> fst (snd ([(False, Finite 0, item_c), (False, Infinite, item_a)] ! 0)) \<noteq> Infinite"
    by simp
  have xs: "[item_a, item_d] \<noteq> [] \<and> (\<forall>c \<in> set [item_a, item_d]. coordinate_absent c)
     \<and> py_get (JObj [(''data'', JArr [item_a, item_d])]) ''data'' (JArr [])
         = Inr (JArr [item_a, item_d])"
    using ca cd by simp
  note T = absent_coordinate_ranking [of item_a double_fpu "Finite 0" "Finite 0"
      "JArr [item_a, item_c]"
      "[(False, Finite 0, item_c), (False, Infinite, item_a)]" "[item_a, item_d]"
      "JObj [(''data'', JArr [item_a, item_d])]"]
  have e: "rank_entry double_fpu (Finite 0) (Finite 0) item_a
      = Inr (truthy (field item_a ''is_pano''), Infinite, item_a)"
    by (rule T [THEN conjunct1, THEN mp, OF ca])
  have o: "(0::nat) < 1"
    by (rule T [THEN conjunct2, THEN conjunct1, THEN mp, OF r, THEN spec, THEN spec, THEN mp, OF ij])
  have f: "\<exists>rk url c. rank_items double_fpu (Finite 0) (Finite 0) (JArr [item_a, item_d]) = Inr rk
        \<and> find_try double_fpu (Finite 0) (Finite 0) False
            (Body (JObj [(''data'', JArr [item_a, item_d])])) = Inr (Some (url, c))
        \<and> c = snd (snd (hd rk)) \<and> c \<in> set [item_a, item_d] \<and> coordinate_absent c"
    by (rule T [THEN conjunct2, THEN conjunct2, THEN mp, OF xs])
  show ?thesis
    by (intro conjI) (rule ca cd e r o f)+
qed

text \<open>
  The claim as stated fails twice. A panoramic candidate without a coordinate is ranked
  before a non-panoramic candidate at distance 0. And when the direct query fails and the
  query of the radius 150 answers with two candidates that have no coordinate, the first
  of them is returned, with its thumbnail, as the result of that radius.
\<close>

theorem absent_coordinate_counterexample:
  "coordinate_absent item_b \<and> \<not> coordinate_absent item_c
   \<and> rank_items double_fpu (Finite 0) (Finite 0) (JArr [item_c, item_b])
       = Inr [(True, Infinite, item_b), (False, Finite 0, item_c)]
   \<and> coordinate_absent item_a \<and> coordinate_absent item_d
   \<and> fst (mapillary_find_best nogeo_world (Finite 0) (Finite 0) (Some ''MLY|x'') [150] False)
       = Inr (JStr ''u'', item_a)
   \<and> map is_bbox (requests_of (snd (mapillary_find_best nogeo_world (Finite 0) (Finite 0)
                                      (Some ''MLY|x'') [150] False)))
       = [False, True]
   \<and> http nogeo_world 1
       (requests_of (snd (mapillary_find_best nogeo_world (Finite 0) (Finite 0)
                            (Some ''MLY|x'') [150] False)) ! 1)
       = Body (JObj [(''data'', JArr [item_a, item_d])])"
proof -
  let ?w = nogeo_world
  have ar: "arith ?w = double_fpu" by (simp add: world_defs)
  obtain r1 where r1: "bbox_request (arith ?w) (Finite 0) (Finite 0) ''MLY|x'' 150 = Inr r1"
    and b1: "is_bbox r1"
    unfolding ar using bbox_150 by blast
  have t1: "''MLY|x'' \<noteq> []" by simp
  have t2: "startswith ''MLY|x'' ''MLY|''" by (simp add: startswith_def)
  have f0: "\<forall>q. find_try (arith ?w) (Finite 0) (Finite 0) False
      (http ?w 0 (closeto_request (Finite 0) (Finite 0) ''MLY|x'')) \<noteq> Inr (Some q)"
    by (simp add: world_defs find_try_def)
  have h1: "http ?w 1 r1 = Body (JObj [(''data'', JArr [item_a, item_d])])"
    by (simp add: world_defs)
  have f1: "find_try (arith ?w) (Finite 0) (Finite 0) False (http ?w 1 r1)
      = Inr (Some (JStr ''u'', item_a))"
    unfolding h1 by (simp add: eval_defs)
  have c1: "cascade ?w (Finite 0) (Finite 0) ''MLY|x'' False 1 [150]
      = (Inr (JStr ''u'', item_a), [Get r1])"
    by (rule cascade_hit [OF r1 f1])
  have m: "mapillary_find_best ?w (Finite 0) (Finite 0) (Some ''MLY|x'') [150] False
      = (Inr (JStr ''u'', item_a),
         [Get (closeto_request (Finite 0) (Finite 0) ''MLY|x''), Get r1])"
    using direct_miss [OF t1 t2 f0, of "[150]"] c1 by simp
  show ?thesis
    unfolding m using absent_examples rank_pano_first b1 h1
    by (simp add: closeto_request_def)
qed

section \<open>Exceptions that leave the two entry points\<close>

text \<open>With a delay that \<^verbatim>\<open>time.sleep\<close> accepts the handler of the geocoder cannot raise, so
  the loop returns a value.\<close>

lemma geocode_loop_returns:
  "0 \<le> delay \<Longrightarrow> delay \<le> sleep_max w
   \<Longrightarrow> \<exists>res. fst (geocode_loop w address retries delay is) = Inr res"
  by (induction "is") (auto simp: py_sleep_def split: sum.splits prod.splits)

text \<open>
  Claim C5, as amended. For every address and retry count, for every delay that
  \<^verbatim>\<open>time.sleep\<close> accepts (not negative, not beyond the longest sleep of the platform), and
  for every world, that is, every sequence of answers and failures of the provider,
  \<open>geocode_nominatim\<close> returns a value, a result or \<^verbatim>\<open>None\<close>, and raises nothing. For every
  token, panorama flag and world, and for every origin and list of radii such that the
  degree offsets of each radius are computed without an exception, \<open>mapillary_find_best\<close>
  returns either \<open>Empty\<close> or a preview URL with a candidate record: every exception of its
  two \<^verbatim>\<open>try\<close> blocks is caught. In the arithmetic of doubles the offsets are computed for
  every latitude and every radius below \<open>2 ^ 1023\<close> in absolute value.
\<close>

theorem no_exception_escapes:
  "(0 \<le> delay \<and> delay \<le> sleep_max w
      \<longrightarrow> (\<exists>res tr. geocode_nominatim w address retries delay = (Inr res, tr)))
   \<and> ((\<forall>r \<in> set radii. \<exists>d. deg_for_meters (arith w) la r = Inr d)
      \<longrightarrow> (\<exists>out tr. mapillary_find_best w la lo token radii rp = (Inr out, tr)
             \<and> (out = Empty \<or> (\<exists>url kvs. out = (url, JObj kvs)))))
   \<and> (arith w = double_fpu \<and> \<bar>x\<bar> < 2 ^ 1023 \<and> (\<forall>r \<in> set radii. \<bar>r\<bar> < 2 ^ 1023)
      \<longrightarrow> (\<exists>out tr. mapillary_find_best w (Finite x) lo token radii rp = (Inr out, tr)
             \<and> (out = Empty \<or> (\<exists>url kvs. out = (url, JObj kvs)))))"
proof -
  have geo: "\<exists>res tr. geocode_nominatim w address retries delay = (Inr res, tr)"
    if d: "0 \<le> delay" "delay \<le> sleep_max w"
  proof (cases "address = []")
    case True
    then show ?thesis by (simp add: geocode_nominatim_def)
  next
    case False
    from geocode_loop_returns [OF d, of address retries "[0 ..< nat retries]"]
    obtain res where "fst (geocode_loop w address retries delay [0 ..< nat retries]) = Inr res"
      by blast
    then have "geocode_nominatim w address retries delay
        = (Inr res, snd (geocode_loop w address retries delay [0 ..< nat retries]))"
      using False by (simp add: geocode_nominatim_def prod_eq_iff)
    then show ?thesis by blast
  qed
  have res: "\<exists>out tr. mapillary_find_best w la' lo token radii rp = (Inr out, tr)
             \<and> (out = Empty \<or> (\<exists>url kvs. out = (url, JObj kvs)))"
    if offs: "\<forall>r \<in> set radii. \<exists>d. deg_for_meters (arith w) la' r = Inr d" for la'
  proof -
    have "\<exists>out. fst (mapillary_find_best w la' lo token radii rp) = Inr out"
    proof (cases "\<exists>t. token = Some t \<and> t \<noteq> [] \<and> startswith t ''MLY|''")
      case False
      then have "mapillary_find_best w la' lo token radii rp = (Inr Empty, [])"
        by (cases token) (auto simp: mapillary_find_best_def)
      then show ?thesis by simp
    next
      case True
      then obtain t where t: "token = Some t" "t \<noteq> []" "startswith t ''MLY|''" by blast
      show ?thesis
      proof (cases "\<exists>q. find_try (arith w) la' lo rp (http w 0 (closeto_request la' lo t))
            = Inr (Some q)")
        case True
        then obtain q where "find_try (arith w) la' lo rp (http w 0 (closeto_request la' lo t))
            = Inr (Some q)"
          by blast
        from direct_hit [OF t(2,3) this, of radii] t(1) show ?thesis by simp
      next
        case False
        then have nq: "\<forall>q. find_try (arith w) la' lo rp (http w 0 (closeto_request la' lo t))
            \<noteq> Inr (Some q)"
          by blast
        from direct_miss [OF t(2,3) nq, of radii] t(1)
          cascade_returns [OF offs, of lo t rp 1]
        show ?thesis by simp
      qed
    qed
    then obtain out where o: "fst (mapillary_find_best w la' lo token radii rp) = Inr out"
      by blast
    have "out = Empty \<or> (\<exists>url kvs. out = (url, JObj kvs))"
    proof (cases "out = Empty")
      case True
      then show ?thesis by simp
    next
      case False
      with mapillary_result [OF o] obtain resp
        where "find_try (arith w) la' lo rp resp = Inr (Some out)"
        by blast
      then have "find_try (arith w) la' lo rp resp = Inr (Some (fst out, snd out))" by simp
      from find_try_outcome [OF this] obtain kvs where "snd out = JObj kvs" by blast
      then have "out = (fst out, JObj kvs)" by (simp add: prod_eq_iff)
      then show ?thesis by blast
    qed
    with o show ?thesis
      by (metis prod.collapse)
  qed
  have dbl: "\<exists>out tr. mapillary_find_best w (Finite x) lo token radii rp = (Inr out, tr)
             \<and> (out = Empty \<or> (\<exists>url kvs. out = (url, JObj kvs)))"
    if "arith w = double_fpu \<and> \<bar>x\<bar> < 2 ^ 1023 \<and> (\<forall>r \<in> set radii. \<bar>r\<bar> < 2 ^ 1023)"
  proof (rule res, rule ballI)
    fix r assume "r \<in> set radii"
    with that have "\<bar>x\<bar> < 2 ^ 1023" "\<bar>r\<bar> < 2 ^ 1023" "arith w = double_fpu" by blast+
    then show "\<exists>d. deg_for_meters (arith w) (Finite x) r = Inr d"
      using deg_for_meters_double [of x r] by simp
  qed
  show ?thesis
    using geo res [of la] dbl by blast
qed

theorem no_exception_escapes_witness:
  "0 \<le> default_delay \<and> default_delay \<le> sleep_max dead_world
   \<and> (\<exists>res tr. geocode_nominatim dead_world ''Paris'' default_retries default_delay = (Inr res, tr))
   \<and> arith dead_world = double_fpu \<and> \<bar>48::real\<bar> < 2 ^ 1023
   \<and> Max (set default_radii) < 2 ^ 1023 \<and> - (2 ^ 1023) < Min (set default_radii)
   \<and> (\<exists>out tr. mapillary_find_best dead_world (Finite 48) (Finite 2) (Some ''MLY|x'')
                  default_radii False = (Inr out, tr)
         \<and> (out = Empty \<or> (\<exists>url kvs. out = (url, JObj kvs))))"
proof -
  have d: "0 \<le> default_delay \<and> default_delay \<le> sleep_max dead_world"
    by (simp add: default_delay_def world_defs)
  have a: "arith dead_world = double_fpu" by (simp add: world_defs)
  have l: "\<bar>48::real\<bar> < 2 ^ 1023" by simp
  have r: "\<forall>r \<in> set default_radii. \<bar>r\<bar> < 2 ^ 1023"
    by (simp add: default_radii_def)
  have h: "arith dead_world = double_fpu \<and> \<bar>48::real\<bar> < 2 ^ 1023
      \<and> (\<forall>r \<in> set default_radii. \<bar>r\<bar> < 2 ^ 1023)"
    using a l r by blast
  note T = no_exception_escapes [of default_delay dead_world "''Paris''" default_retries
      default_radii "Finite 48" "Finite 2" "Some ''MLY|x''" False 48]
  have mx: "Max (set default_radii) < 2 ^ 1023" "- (2 ^ 1023) < Min (set default_radii)"
    by (simp_all add: default_radii_def)
  show ?thesis
    by (intro conjI)
      (rule d [THEN conjunct1] d [THEN conjunct2] a l mx T [THEN conjunct1, THEN mp, OF d]
        T [THEN conjunct2, THEN conjunct2, THEN mp, OF h])+
qed

text \<open>
  The claim as stated fails, for both entry points. When the request of the geocoder
  fails, the handler sleeps before the next attempt, and \<^verbatim>\<open>time.sleep\<close> raises
  \<^verbatim>\<open>ValueError\<close> on the delay -1 and \<^verbatim>\<open>OverflowError\<close> on a delay of \<open>10 ^ 300\<close> seconds; the
  exception is raised inside the handler and leaves \<open>geocode_nominatim\<close>. When the direct
  query of the resolver fails, the offsets of the first radius are computed outside the
  \<^verbatim>\<open>try\<close> block: at an infinite latitude \<^verbatim>\<open>math.cos\<close> raises \<^verbatim>\<open>ValueError\<close>, and on the
  integer radius \<open>2 ^ 1024\<close> the division raises \<^verbatim>\<open>OverflowError\<close>; the exception leaves
  \<open>mapillary_find_best\<close>.
\<close>

theorem escaping_exception_counterexample:
  "geocode_nominatim dead_world ''Paris'' 3 (- 1) = (Inl ValueError, [Get (Search ''Paris'')])
   \<and> geocode_nominatim dead_world ''Paris'' 3 (10 ^ 300)
       = (Inl OverflowError, [Get (Search ''Paris'')])
   \<and> mapillary_find_best dead_world Infinite (Finite 0) (Some ''MLY|x'') [150] False
       = (Inl ValueError, [Get (closeto_request Infinite (Finite 0) ''MLY|x'')])
   \<and> mapillary_find_best dead_world (Finite 0) (Finite 0) (Some ''MLY|x'') [2 ^ 1024] False
       = (Inl OverflowError, [Get (closeto_request (Finite 0) (Finite 0) ''MLY|x'')])"
proof -
  have g1: "geocode_nominatim dead_world ''Paris'' 3 (- 1)
      = (Inl ValueError, [Get (Search ''Paris'')])"
    by (simp add: geocode_nominatim_def world_defs geocode_try_def py_sleep_def upt_rec)
  have g2: "geocode_nominatim dead_world ''Paris'' 3 (10 ^ 300)
      = (Inl OverflowError, [Get (Search ''Paris'')])"
    by (simp add: geocode_nominatim_def world_defs geocode_try_def py_sleep_def upt_rec)
  have s: "startswith ''MLY|x'' ''MLY|''" by (simp add: startswith_def)
  have ar: "arith dead_world = double_fpu" by (simp add: world_defs)
  have h: "http dead_world n req = Failed RequestException" for n req
    by (simp add: world_defs)
  have b1: "bbox_request double_fpu Infinite (Finite 0) ''MLY|x'' 150 = Inl ValueError"
    by (simp add: bbox_request_def deg_for_meters_def arith_defs binary64_150 Let_def)
  have b2: "bbox_request double_fpu (Finite 0) (Finite 0) ''MLY|x'' (2 ^ 1024) = Inl OverflowError"
    using binary64_huge by (simp add: bbox_request_def deg_for_meters_def arith_defs Let_def)
  have m1: "mapillary_find_best dead_world Infinite (Finite 0) (Some ''MLY|x'') [150] False
      = (Inl ValueError, [Get (closeto_request Infinite (Finite 0) ''MLY|x'')])"
    using s by (simp add: mapillary_find_best_def h ar find_try_failed b1)
  have m2: "mapillary_find_best dead_world (Finite 0) (Finite 0) (Some ''MLY|x'') [2 ^ 1024] False
      = (Inl OverflowError, [Get (closeto_request (Finite 0) (Finite 0) ''MLY|x'')])"
    using s b2 by (simp add: mapillary_find_best_def h ar find_try_failed)
  show ?thesis
    by (intro conjI) (rule g1 g2 m1 m2)+
qed

end
